theory Spec2Isabelle
  imports Complex_Main "HOL-Library.Multiset" "HOL-Library.Sublist" "HOL-Library.Char_ord"
    "HOL-Library.List_Lexorder"
begin

section \<open>Sorting with a comparison function\<close>

text \<open>
  \<open>Array.prototype.sort(compare)\<close> is a stable sort. It is modelled as the stable
  insertion sort for the comparison function, whose sign orders two elements.
  \<open>String.prototype.localeCompare\<close> depends on the host's collation and is a
  parameter \<open>lc\<close> of every function that sorts by name.
\<close>

fun insert_cmp :: "('a \<Rightarrow> 'a \<Rightarrow> int) \<Rightarrow> 'a \<Rightarrow> 'a list \<Rightarrow> 'a list" where
  "insert_cmp c a [] = [a]"
| "insert_cmp c a (b # bs) = (if c a b \<le> 0 then a # b # bs else b # insert_cmp c a bs)"

definition sort_cmp :: "('a \<Rightarrow> 'a \<Rightarrow> int) \<Rightarrow> 'a list \<Rightarrow> 'a list" where
  "sort_cmp c xs = foldr (insert_cmp c) xs []"

section \<open>Packing primitives (binPacking)\<close>

text \<open>
  JavaScript numbers are modelled as mathematical integers (pixel units); the one
  non-finite number the packers use, \<open>Infinity\<close> as the height of the first free
  rectangle of the guillotine packer, is a separate constructor.
\<close>

record 'd PackableItem =
  item_id :: string
  width :: int
  height :: int
  data :: 'd

record 'd PackedItem = "'d PackableItem" +
  pos_x :: int
  pos_y :: int

record 'd PackingResult =
  items :: "'d PackedItem list"
  containerWidth :: int
  containerHeight :: int

record 'd Shelf =
  shelf_y :: int
  shelf_height :: int
  shelf_width :: int
  shelf_items :: "'d PackedItem list"

text \<open>The object spread \<open>{...item, x, y}\<close>.\<close>

definition place_at :: "'d PackableItem \<Rightarrow> int \<Rightarrow> int \<Rightarrow> 'd PackedItem" where
  "place_at it px py =
     \<lparr>item_id = item_id it, width = width it, height = height it, data = data it,
      pos_x = px, pos_y = py\<rparr>"

text \<open>The payload of a placed item: its fields without the position.\<close>

definition unplaced :: "'d PackedItem \<Rightarrow> 'd PackableItem" where
  "unplaced p = \<lparr>item_id = item_id p, width = width p, height = height p, data = data p\<rparr>"

text \<open>\<open>v || d\<close> on an optional number: \<open>undefined\<close> and \<open>0\<close> are falsy.\<close>

definition or_default :: "int option \<Rightarrow> int \<Rightarrow> int" where
  "or_default v d = (case v of None \<Rightarrow> d | Some n \<Rightarrow> if n = 0 then d else n)"

record ShelfOptions =
  sh_padding :: "int option"
  sh_sortByHeight :: "bool option"

record GuillotineOptions =
  gu_padding :: "int option"

record ColumnOptions =
  co_padding :: "int option"
  co_minColumnWidth :: "int option"
  co_maxColumns :: "int option"

subsection \<open>Shelf packing: \<open>packItems\<close>\<close>

text \<open>
  The inner loop \<open>for (const shelf of shelves)\<close>: the first shelf that has room takes
  the item and the loop breaks. The result is the position and the updated shelves, or
  \<open>None\<close> when \<open>placed\<close> stays false.
\<close>

fun place_on_shelves ::
  "'d Shelf list \<Rightarrow> 'd PackableItem \<Rightarrow> int \<Rightarrow> int \<Rightarrow> int \<Rightarrow> ('d PackedItem \<times> 'd Shelf list) option"
where
  "place_on_shelves [] it itemWidth itemHeight cw = None"
| "place_on_shelves (s # ss) it itemWidth itemHeight cw =
     (if shelf_width s + itemWidth \<le> cw \<and> itemHeight \<le> shelf_height s
      then let p = place_at it (shelf_width s) (shelf_y s)
           in Some (p, s\<lparr>shelf_width := shelf_width s + itemWidth,
                          shelf_items := shelf_items s @ [p]\<rparr> # ss)
      else (case place_on_shelves ss it itemWidth itemHeight cw of
              None \<Rightarrow> None
            | Some (p, ss') \<Rightarrow> Some (p, s # ss')))"

text \<open>One iteration of \<open>for (const item of sortedItems)\<close> on the state
  \<open>(shelves, packedItems, currentY)\<close>.\<close>

definition shelf_step ::
  "int \<Rightarrow> int \<Rightarrow> 'd Shelf list \<times> 'd PackedItem list \<times> int \<Rightarrow> 'd PackableItem
   \<Rightarrow> 'd Shelf list \<times> 'd PackedItem list \<times> int"
where
  "shelf_step padding cw st it =
     (case st of (shelves, packedItems, currentY) \<Rightarrow>
        let itemWidth = width it + padding;
            itemHeight = height it + padding
        in (case place_on_shelves shelves it itemWidth itemHeight cw of
              Some (p, shelves') \<Rightarrow> (shelves', packedItems @ [p], currentY)
            | None \<Rightarrow>
                let p = place_at it padding currentY;
                    newShelf = \<lparr>shelf_y = currentY, shelf_height = itemHeight,
                                shelf_width = itemWidth, shelf_items = [p]\<rparr>
                in (shelves @ [newShelf], packedItems @ [p], currentY + itemHeight)))"

definition packItems :: "'d PackableItem list \<Rightarrow> int \<Rightarrow> ShelfOptions \<Rightarrow> 'd PackingResult" where
  "packItems its cw options =
     (let padding = or_default (sh_padding options) 3;
          sortByHeight = (sh_sortByHeight options \<noteq> Some False);
          sortedItems = (if sortByHeight then sort_cmp (\<lambda>a b. height b - height a) its
                         else its)
      in (case foldl (shelf_step padding cw) ([], [], padding) sortedItems of
            (shelves, packedItems, currentY) \<Rightarrow>
              \<lparr>items = packedItems, containerWidth = cw, containerHeight = currentY\<rparr>))"

definition default_shelf_options :: ShelfOptions where
  "default_shelf_options = \<lparr>sh_padding = None, sh_sortByHeight = None\<rparr>"

subsection \<open>Guillotine packing: \<open>packItemsGuillotine\<close>\<close>

datatype extnum = Fin int | Infinity

fun ext_le :: "extnum \<Rightarrow> extnum \<Rightarrow> bool" where
  "ext_le (Fin a) (Fin b) = (a \<le> b)"
| "ext_le _ Infinity = True"
| "ext_le Infinity (Fin b) = False"

fun ext_less :: "extnum \<Rightarrow> extnum \<Rightarrow> bool" where
  "ext_less (Fin a) (Fin b) = (a < b)"
| "ext_less (Fin a) Infinity = True"
| "ext_less Infinity _ = False"

text \<open>Adding a finite number to, and subtracting one from, a possibly infinite one.\<close>

fun ext_plus :: "int \<Rightarrow> extnum \<Rightarrow> extnum" where
  "ext_plus a (Fin b) = Fin (a + b)"
| "ext_plus a Infinity = Infinity"

fun ext_minus :: "extnum \<Rightarrow> int \<Rightarrow> extnum" where
  "ext_minus (Fin a) b = Fin (a - b)"
| "ext_minus Infinity b = Infinity"

text \<open>\<open>Math.min\<close> of a finite and a possibly infinite number.\<close>

fun ext_min :: "int \<Rightarrow> extnum \<Rightarrow> int" where
  "ext_min a (Fin b) = min a b"
| "ext_min a Infinity = a"

record FreeRect =
  rect_x :: int
  rect_y :: int
  rect_width :: int
  rect_height :: extnum

definition rectanglesOverlap :: "FreeRect \<Rightarrow> FreeRect \<Rightarrow> bool" where
  "rectanglesOverlap a b =
     (\<not> (rect_x a + rect_width a \<le> rect_x b \<or>
         rect_x b + rect_width b \<le> rect_x a \<or>
         ext_le (ext_plus (rect_y a) (rect_height a)) (Fin (rect_y b)) \<or>
         ext_le (ext_plus (rect_y b) (rect_height b)) (Fin (rect_y a))))"

text \<open>
  The search \<open>for (const rect of freeRects)\<close> for the best short side fit, on the
  loop variables \<open>bestRect\<close> and \<open>bestFit\<close>.
\<close>

fun find_best ::
  "FreeRect list \<Rightarrow> int \<Rightarrow> int \<Rightarrow> FreeRect option \<Rightarrow> extnum \<Rightarrow> FreeRect option"
where
  "find_best [] itemWidth itemHeight bestRect bestFit = bestRect"
| "find_best (r # rs) itemWidth itemHeight bestRect bestFit =
     (if rect_width r \<ge> itemWidth \<and> ext_le (Fin itemHeight) (rect_height r)
      then let leftoverHoriz = rect_width r - itemWidth;
               leftoverVert = ext_minus (rect_height r) itemHeight;
               shortSideFit = ext_min leftoverHoriz leftoverVert
           in if ext_less (Fin shortSideFit) bestFit
              then find_best rs itemWidth itemHeight (Some r) (Fin shortSideFit)
              else find_best rs itemWidth itemHeight bestRect bestFit
      else find_best rs itemWidth itemHeight bestRect bestFit)"

text \<open>
  The pruning loops. \<open>overlaps_before rs i j\<close> is the inner loop over the indices
  below \<open>j\<close>, downwards; \<open>prune_from n rs\<close> is the outer loop over the indices below
  \<open>n\<close>, downwards, where \<open>splice(i, 1)\<close> removes position \<open>i\<close>.
\<close>

fun overlaps_before :: "FreeRect list \<Rightarrow> nat \<Rightarrow> nat \<Rightarrow> bool" where
  "overlaps_before rs i 0 = False"
| "overlaps_before rs i (Suc j) =
     (if rectanglesOverlap (rs ! i) (rs ! j) then True else overlaps_before rs i j)"

definition splice1 :: "nat \<Rightarrow> 'a list \<Rightarrow> 'a list" where
  "splice1 i xs = take i xs @ drop (Suc i) xs"

fun prune_from :: "nat \<Rightarrow> FreeRect list \<Rightarrow> FreeRect list" where
  "prune_from 0 rs = rs"
| "prune_from (Suc i) rs =
     prune_from i (if overlaps_before rs i i then splice1 i rs else rs)"

definition prune_overlapping :: "FreeRect list \<Rightarrow> FreeRect list" where
  "prune_overlapping rs = prune_from (length rs) rs"

text \<open>The two remainders of a split free rectangle.\<close>

definition split_rect :: "FreeRect \<Rightarrow> int \<Rightarrow> int \<Rightarrow> FreeRect list" where
  "split_rect bestRect itemWidth itemHeight =
     (if rect_width bestRect > itemWidth
      then [\<lparr>rect_x = rect_x bestRect + itemWidth, rect_y = rect_y bestRect,
             rect_width = rect_width bestRect - itemWidth, rect_height = Fin itemHeight\<rparr>]
      else []) @
     (if ext_less (Fin itemHeight) (rect_height bestRect)
      then [\<lparr>rect_x = rect_x bestRect, rect_y = rect_y bestRect + itemHeight,
             rect_width = rect_width bestRect,
             rect_height = ext_minus (rect_height bestRect) itemHeight\<rparr>]
      else [])"

text \<open>One iteration of the main loop on the state \<open>(freeRects, packedItems)\<close>.
  \<open>indexOf\<close> finds the chosen rectangle, which is the first of its value in the list.\<close>

definition guillotine_step ::
  "int \<Rightarrow> FreeRect list \<times> 'd PackedItem list \<Rightarrow> 'd PackableItem
   \<Rightarrow> FreeRect list \<times> 'd PackedItem list"
where
  "guillotine_step padding st it =
     (case st of (freeRects, packedItems) \<Rightarrow>
        let itemWidth = width it + padding;
            itemHeight = height it + padding
        in (case find_best freeRects itemWidth itemHeight None Infinity of
              None \<Rightarrow> (freeRects, packedItems)
            | Some bestRect \<Rightarrow>
                (prune_overlapping
                   (remove1 bestRect freeRects @ split_rect bestRect itemWidth itemHeight),
                 packedItems @ [place_at it (rect_x bestRect) (rect_y bestRect)])))"

definition max_list :: "int list \<Rightarrow> int \<Rightarrow> int" where
  "max_list xs z = foldl max z xs"

definition packItemsGuillotine ::
  "'d PackableItem list \<Rightarrow> int \<Rightarrow> GuillotineOptions \<Rightarrow> 'd PackingResult"
where
  "packItemsGuillotine its cw options =
     (let padding = or_default (gu_padding options) 3;
          sortedItems = sort_cmp (\<lambda>a b. width b * height b - width a * height a) its;
          freeRects = [\<lparr>rect_x = padding, rect_y = padding,
                        rect_width = cw - padding * 2, rect_height = Infinity\<rparr>]
      in (case foldl (guillotine_step padding) (freeRects, []) sortedItems of
            (freeRects', packedItems) \<Rightarrow>
              let maxY = max_list (map (\<lambda>p. pos_y p + height p) packedItems) 0
              in \<lparr>items = packedItems, containerWidth = cw,
                  containerHeight = maxY + padding\<rparr>))"

subsection \<open>Column packing: \<open>packIntoColumns\<close>\<close>

datatype js_error = RangeError | TypeError

text \<open>The body of \<open>items.forEach((item, index) => ...)\<close> on the state
  \<open>(columns, columnHeights)\<close>.\<close>

definition column_step ::
  "int \<Rightarrow> nat \<Rightarrow> int \<Rightarrow> 'd PackedItem list list \<times> int list \<Rightarrow> nat \<times> 'd PackableItem
   \<Rightarrow> 'd PackedItem list list \<times> int list"
where
  "column_step padding numColumns columnWidth st ix =
     (case st of (columns, columnHeights) \<Rightarrow>
      case ix of (index, it) \<Rightarrow>
        let columnIndex = index mod numColumns;
            py = columnHeights ! columnIndex;
            packedItem = place_at it (int columnIndex * columnWidth + padding) py
        in (columns[columnIndex := columns ! columnIndex @ [packedItem]],
            columnHeights[columnIndex := py + height it + padding]))"

text \<open>The locals \<open>numColumns\<close> and \<open>columnWidth\<close>.\<close>

definition numColumns :: "int \<Rightarrow> ColumnOptions \<Rightarrow> int" where
  "numColumns cw options =
     (let minColumnWidth = or_default (co_minColumnWidth options) 150;
          maxColumns = or_default (co_maxColumns options) 4
      in min (max 1 (cw div minColumnWidth)) maxColumns)"

definition pack_columnWidth :: "int \<Rightarrow> ColumnOptions \<Rightarrow> int" where
  "pack_columnWidth cw options = cw div numColumns cw options"

text \<open>
  \<open>Array(numColumns)\<close> throws a RangeError for a negative length. The length is never
  zero, since \<open>maxColumns\<close> is not; there the model reports the TypeError that pushing
  into a missing column would raise.
\<close>

definition packIntoColumns ::
  "'d PackableItem list \<Rightarrow> int \<Rightarrow> ColumnOptions \<Rightarrow> js_error + 'd PackingResult"
where
  "packIntoColumns its cw options =
     (let padding = or_default (co_padding options) 3
      in if numColumns cw options < 0 then Inl RangeError
         else if numColumns cw options = 0 then Inl TypeError
         else
           let columnWidth = pack_columnWidth cw options;
               n = nat (numColumns cw options)
           in (case foldl (column_step padding n columnWidth)
                       (replicate n [], replicate n padding)
                       (zip [0 ..< length its] its) of
                 (columns, columnHeights) \<Rightarrow>
                   Inr \<lparr>items = concat columns, containerWidth = cw,
                        containerHeight = max_list columnHeights padding\<rparr>))"

definition default_guillotine_options :: GuillotineOptions where
  "default_guillotine_options = \<lparr>gu_padding = None\<rparr>"

definition default_column_options :: ColumnOptions where
  "default_column_options =
     \<lparr>co_padding = None, co_minColumnWidth = None, co_maxColumns = None\<rparr>"

section \<open>Strings as the source uses them\<close>

text \<open>
  Strings are byte lists. \<open>toLowerCase\<close> is modelled on the ASCII letters, which is
  all the lower-cased patterns of the classifier can match.
\<close>

definition toLowerChar :: "char \<Rightarrow> char" where
  "toLowerChar c =
     (case map_of (zip ''ABCDEFGHIJKLMNOPQRSTUVWXYZ'' ''abcdefghijklmnopqrstuvwxyz'') c of
        None \<Rightarrow> c
      | Some l \<Rightarrow> l)"

definition toLowerCase :: "string \<Rightarrow> string" where
  "toLowerCase s = map toLowerChar s"

text \<open>\<open>s.includes(sub)\<close> and \<open>s.startsWith(p)\<close>.\<close>

fun str_includes :: "string \<Rightarrow> string \<Rightarrow> bool" where
  "str_includes [] sub = (sub = [])"
| "str_includes (c # cs) sub = (prefix sub (c # cs) \<or> str_includes cs sub)"

definition startsWith :: "string \<Rightarrow> string \<Rightarrow> bool" where
  "startsWith s p = prefix p s"

text \<open>\<open>s.split(sep)\<close> for a separator that is one character of a class, and
  \<open>parts.join(sep)\<close>.\<close>

fun split_where :: "(char \<Rightarrow> bool) \<Rightarrow> string \<Rightarrow> string list" where
  "split_where sep [] = [[]]"
| "split_where sep (c # cs) =
     (if sep c then [] # split_where sep cs
      else (case split_where sep cs of
              [] \<Rightarrow> [[c]]
            | p # ps \<Rightarrow> (c # p) # ps))"

fun join :: "string \<Rightarrow> string list \<Rightarrow> string" where
  "join sep [] = []"
| "join sep [p] = p"
| "join sep (p # q # ps) = p @ sep @ join sep (q # ps)"

text \<open>A comparison of strings by their bytes, for evaluating the sorting functions at
  concrete inputs.\<close>

fun byteCompare :: "string \<Rightarrow> string \<Rightarrow> int" where
  "byteCompare [] [] = 0"
| "byteCompare [] (b # bs) = -1"
| "byteCompare (a # as) [] = 1"
| "byteCompare (a # as) (b # bs) =
     (if (of_char a :: nat) < of_char b then -1
      else if (of_char b :: nat) < of_char a then 1
      else byteCompare as bs)"

section \<open>Nodes, edges and segments\<close>

datatype jsval = JNull | JBool bool | JNum int | JStr string | JArr "jsval list"
  | JObj "(string \<times> jsval) list"

fun truthy :: "jsval \<Rightarrow> bool" where
  "truthy JNull = False"
| "truthy (JBool b) = b"
| "truthy (JNum n) = (n \<noteq> 0)"
| "truthy (JStr s) = (s \<noteq> [])"
| "truthy (JArr xs) = True"
| "truthy (JObj kvs) = True"

text \<open>
  \<open>NodeData\<close>. The field \<open>hierarchy\<close> is read by \<open>isTestNode\<close> although the
  interface does not declare it; \<open>details\<close> is optional here because the code guards
  it with \<open>node.details || {}\<close>.
\<close>

record NodeData =
  node_id :: string
  node_type :: string
  name :: string
  is_public :: bool
  filename :: "string option"
  start_line :: "int option"
  end_line :: "int option"
  container :: "string option"
  description :: "string option"
  source_code :: "string option"
  details :: "(string \<times> jsval) list option"
  hierarchy :: "string option"

record Edge =
  edge_from :: string
  edge_to :: string
  edge_type :: string

datatype Column = ColLeft | ColMiddle | ColRight | ColGateway

datatype Row = RowTop | RowMiddle | RowBottom | RowTests

text \<open>A \<open>GridSegment\<close> is the string \<open>`${column}-${row}`\<close>; here the pair itself.\<close>

type_synonym GridSegment = "Column \<times> Row"

definition allSegments :: "GridSegment list" where
  "allSegments =
     [(ColLeft, RowTop), (ColLeft, RowMiddle), (ColLeft, RowBottom), (ColLeft, RowTests),
      (ColMiddle, RowTop), (ColMiddle, RowMiddle), (ColMiddle, RowBottom), (ColMiddle, RowTests),
      (ColRight, RowTop), (ColRight, RowMiddle), (ColRight, RowBottom), (ColRight, RowTests),
      (ColGateway, RowTop), (ColGateway, RowMiddle), (ColGateway, RowBottom),
      (ColGateway, RowTests)]"

text \<open>\<open>node.filename || ''\<close>.\<close>

definition filename_or_empty :: "NodeData \<Rightarrow> string" where
  "filename_or_empty n = (case filename n of None \<Rightarrow> [] | Some f \<Rightarrow> f)"

text \<open>The value of a key of \<open>node.details || {}\<close> is truthy.\<close>

definition details_truthy :: "NodeData \<Rightarrow> string \<Rightarrow> bool" where
  "details_truthy n k =
     (case details n of
        None \<Rightarrow> False
      | Some kvs \<Rightarrow> (case map_of kvs k of None \<Rightarrow> False | Some v \<Rightarrow> truthy v))"

section \<open>Node classifier (layoutEngine)\<close>

definition backslash :: char where
  "backslash = CHR 0x5C"

definition hasInfraInPath :: "NodeData \<Rightarrow> bool" where
  "hasInfraInPath n =
     (case filename n of
        None \<Rightarrow> False
      | Some f \<Rightarrow> str_includes f ''/infra/'' \<or> str_includes f (backslash # ''infra'' @ [backslash]))"

definition hasApiOrContractInPath :: "NodeData \<Rightarrow> bool" where
  "hasApiOrContractInPath n =
     (let f = filename_or_empty n
      in str_includes f ''/api/'' \<or>
         str_includes f (backslash # ''api'' @ [backslash]) \<or>
         str_includes f ''/contract/'' \<or>
         str_includes f (backslash # ''contract'' @ [backslash]))"

definition hasGatewayInPath :: "NodeData \<Rightarrow> bool" where
  "hasGatewayInPath n =
     (let f = filename_or_empty n;
          nm = toLowerCase (name n)
      in str_includes f ''/gateway/'' \<or>
         str_includes f (backslash # ''gateway'' @ [backslash]) \<or>
         str_includes f ''/gateways/'' \<or>
         str_includes f (backslash # ''gateways'' @ [backslash]) \<or>
         str_includes f ''/client/'' \<or>
         str_includes f (backslash # ''client'' @ [backslash]) \<or>
         str_includes f ''/clients/'' \<or>
         str_includes f (backslash # ''clients'' @ [backslash]) \<or>
         str_includes nm ''gateway'' \<or>
         str_includes nm ''client'')"

definition isTestNode :: "NodeData \<Rightarrow> bool" where
  "isTestNode n =
     (let f = toLowerCase (filename_or_empty n);
          nm = toLowerCase (name n);
          i = toLowerCase (node_id n);
          h = toLowerCase (case hierarchy n of None \<Rightarrow> [] | Some t \<Rightarrow> t)
      in if str_includes f ''tests/'' \<or> str_includes f (''tests'' @ [backslash]) then True
         else
           let inTestFolder =
                 (str_includes f ''/test/'' \<or> str_includes f (backslash # ''test'' @ [backslash]));
               inTestsHierarchy = (str_includes h ''tests'' \<or> str_includes h ''test'');
               hasTestInName =
                 (str_includes nm ''_test'' \<or> str_includes nm ''test_'' \<or>
                  str_includes i ''_test'' \<or> str_includes i ''test_'');
               inTestModule =
                 (str_includes i ''::test::'' \<or> str_includes i ''::tests::'' \<or>
                  startsWith i ''test::'' \<or> startsWith i ''tests::'')
           in inTestFolder \<or> inTestsHierarchy \<or> hasTestInName \<or> inTestModule)"

definition isDataType :: "NodeData \<Rightarrow> bool" where
  "isDataType n =
     (let t = toLowerCase (node_type n)
      in if t = ''enum'' then True
         else if t = ''struct'' \<or> t = ''dto''
         then \<not> details_truthy n ''methods'' \<and> \<not> details_truthy n ''functions''
         else False)"

definition isStructWithMethods :: "NodeData \<Rightarrow> bool" where
  "isStructWithMethods n =
     (let t = toLowerCase (node_type n)
      in if t = ''struct'' \<or> t = ''dto''
         then details_truthy n ''methods'' \<or> details_truthy n ''functions''
         else False)"

definition isFreeFunction :: "NodeData \<Rightarrow> bool" where
  "isFreeFunction n = (toLowerCase (node_type n) = ''function'')"

definition isClassStruct :: "NodeData \<Rightarrow> bool" where
  "isClassStruct n = (toLowerCase (node_type n) = ''class_struct'')"

definition isMethod :: "NodeData \<Rightarrow> bool" where
  "isMethod n = (toLowerCase (node_type n) = ''method'')"

definition isCrate :: "NodeData \<Rightarrow> bool" where
  "isCrate n = (toLowerCase (node_type n) = ''crate'')"

text \<open>The two decision chains in the body of \<open>nodes.forEach\<close>.\<close>

definition node_column :: "NodeData \<Rightarrow> Column" where
  "node_column n =
     (if hasGatewayInPath n then ColGateway
      else if hasInfraInPath n then ColRight
      else if hasApiOrContractInPath n then ColLeft
      else ColMiddle)"

definition node_row :: "NodeData \<Rightarrow> Row" where
  "node_row n =
     (if isTestNode n then RowTests
      else if isDataType n then RowTop
      else if isClassStruct n \<or> isMethod n then RowMiddle
      else if isStructWithMethods n then RowMiddle
      else if isFreeFunction n then RowBottom
      else RowMiddle)"

text \<open>
  One iteration of \<open>nodes.forEach\<close> on the map of buckets: a crate node is skipped;
  \<open>segments.get(segment)!.push(node)\<close> fails when the key is missing.
\<close>

definition categorize_step ::
  "(GridSegment \<rightharpoonup> NodeData list) \<Rightarrow> NodeData \<Rightarrow> js_error + (GridSegment \<rightharpoonup> NodeData list)"
where
  "categorize_step segments n =
     (if isCrate n then Inr segments
      else
        let segment = (node_column n, node_row n)
        in (case segments segment of
              None \<Rightarrow> Inl TypeError
            | Some bucket \<Rightarrow> Inr (segments(segment \<mapsto> bucket @ [n]))))"

fun fold_err :: "('s \<Rightarrow> 'a \<Rightarrow> js_error + 's) \<Rightarrow> 's \<Rightarrow> 'a list \<Rightarrow> js_error + 's" where
  "fold_err f s [] = Inr s"
| "fold_err f s (a # as) = (case f s a of Inl e \<Rightarrow> Inl e | Inr s' \<Rightarrow> fold_err f s' as)"

text \<open>The map after \<open>allSegments.forEach(seg => segments.set(seg, []))\<close>.\<close>

definition empty_segments :: "GridSegment \<rightharpoonup> NodeData list" where
  "empty_segments = foldl (\<lambda>m seg. m(seg \<mapsto> [])) Map.empty allSegments"

definition categorizeNodesBySegment ::
  "NodeData list \<Rightarrow> js_error + (GridSegment \<rightharpoonup> NodeData list)"
where
  "categorizeNodesBySegment nodes = fold_err categorize_step empty_segments nodes"

text \<open>\<open>categorizeNodesBySegment(nodes).get(segment)\<close>.\<close>

definition segment_bucket ::
  "js_error + (GridSegment \<rightharpoonup> NodeData list) \<Rightarrow> GridSegment \<Rightarrow> NodeData list option"
where
  "segment_bucket r segment = (case r of Inl e \<Rightarrow> None | Inr segments \<Rightarrow> segments segment)"

section \<open>Relationship grouper\<close>

definition getParentClassId :: "NodeData \<Rightarrow> string option" where
  "getParentClassId n =
     (if \<not> isMethod n then None
      else
        let parts = split_where (\<lambda>c. c = CHR ''|'') (node_id n)
        in if length parts \<ge> 2 then Some (join ''|'' (butlast parts)) else None)"

record ClassWithMethods =
  classNode :: NodeData
  methods :: "NodeData list"

text \<open>The body of \<open>methodNodes.forEach\<close>; an empty parent id is falsy.\<close>

definition methodsByClass_step ::
  "(string \<rightharpoonup> NodeData list) \<Rightarrow> NodeData \<Rightarrow> (string \<rightharpoonup> NodeData list)"
where
  "methodsByClass_step m method =
     (case getParentClassId method of
        None \<Rightarrow> m
      | Some parentId \<Rightarrow>
          if parentId = [] then m
          else m(parentId \<mapsto> (case m parentId of None \<Rightarrow> [] | Some ms \<Rightarrow> ms) @ [method]))"

definition compare_names :: "(string \<Rightarrow> string \<Rightarrow> int) \<Rightarrow> NodeData \<Rightarrow> NodeData \<Rightarrow> int" where
  "compare_names lc a b = lc (name a) (name b)"

text \<open>
  \<open>classNodes.map(...)\<close>: the array found in the map is sorted in place, so a later
  class node with the same id finds it sorted.
\<close>

fun make_groups ::
  "(string \<Rightarrow> string \<Rightarrow> int) \<Rightarrow> (string \<rightharpoonup> NodeData list) \<Rightarrow> NodeData list \<Rightarrow> ClassWithMethods list"
where
  "make_groups lc m [] = []"
| "make_groups lc m (c # cs) =
     (case m (node_id c) of
        None \<Rightarrow> \<lparr>classNode = c, methods = []\<rparr> # make_groups lc m cs
      | Some ms \<Rightarrow>
          let sorted = sort_cmp (compare_names lc) ms
          in \<lparr>classNode = c, methods = sorted\<rparr> # make_groups lc (m(node_id c \<mapsto> sorted)) cs)"

definition groupClassesWithMethods ::
  "(string \<Rightarrow> string \<Rightarrow> int) \<Rightarrow> NodeData list \<Rightarrow> ClassWithMethods list \<times> NodeData list"
where
  "groupClassesWithMethods lc nodes =
     (let classNodes = filter isClassStruct nodes;
          methodNodes = filter isMethod nodes;
          otherNodes = filter (\<lambda>n. \<not> isClassStruct n \<and> \<not> isMethod n) nodes;
          methodsByClass = foldl methodsByClass_step Map.empty methodNodes;
          groups = make_groups lc methodsByClass classNodes
      in (sort_cmp (\<lambda>a b. lc (name (classNode a)) (name (classNode b))) groups, otherNodes))"

text \<open>
  \<open>classStructMethodsMap\<close> of the diagram panel: the map from the source id of an
  \<open>includes\<close> edge to the nodes its targets resolve to among all nodes, each list
  sorted by name at the end.
\<close>

definition classStructMethods_step ::
  "NodeData list \<Rightarrow> (string \<rightharpoonup> NodeData list) \<Rightarrow> Edge \<Rightarrow> (string \<rightharpoonup> NodeData list)"
where
  "classStructMethods_step allNodes m e =
     (if edge_type e = ''includes'' \<and> str_includes (edge_from e) ''class_struct::'' \<and>
         str_includes (edge_to e) ''|method::''
      then
        let ms = (case m (edge_from e) of None \<Rightarrow> [] | Some l \<Rightarrow> l);
            ms' = (case find (\<lambda>n. node_id n = edge_to e) allNodes of
                     None \<Rightarrow> ms
                   | Some methodNode \<Rightarrow> ms @ [methodNode])
        in m(edge_from e \<mapsto> ms')
      else m)"

definition classStructMethodsMap ::
  "(string \<Rightarrow> string \<Rightarrow> int) \<Rightarrow> NodeData list \<Rightarrow> Edge list \<Rightarrow> (string \<rightharpoonup> NodeData list)"
where
  "classStructMethodsMap lc allNodes erdEdges =
     (let m = foldl (classStructMethods_step allNodes) Map.empty erdEdges
      in (\<lambda>key. map_option (sort_cmp (compare_names lc)) (m key)))"

text \<open>
  The mapping as the specification words it: for a class id, the targets of the
  \<open>includes\<close> edges from it that carry the two markers, resolved against the whole
  catalogue, sorted by name; no entry for an id without such an edge.
\<close>

definition is_ownership_edge :: "Edge \<Rightarrow> bool" where
  "is_ownership_edge e =
     (edge_type e = ''includes'' \<and> str_includes (edge_from e) ''class_struct::'' \<and>
      str_includes (edge_to e) ''|method::'')"

definition reference_class_methods ::
  "(string \<Rightarrow> string \<Rightarrow> int) \<Rightarrow> NodeData list \<Rightarrow> Edge list \<Rightarrow> string \<Rightarrow> NodeData list option"
where
  "reference_class_methods lc allNodes erdEdges classId =
     (let owned = filter (\<lambda>e. is_ownership_edge e \<and> edge_from e = classId) erdEdges
      in if owned = [] then None
         else Some (sort_cmp (compare_names lc)
                      (List.map_filter (\<lambda>e. find (\<lambda>n. node_id n = edge_to e) allNodes) owned)))"

section \<open>Segment layout policy (layoutEngine)\<close>

record LayoutConfig =
  columnWidth :: rat
  rowHeight :: rat
  padding :: rat
  dataTypeBoxWidth :: rat
  dataTypeBoxHeight :: rat
  structWithMethodsBoxWidth :: rat
  structWithMethodsBoxHeight :: rat
  classNodeWidth :: rat
  classNodeHeight :: rat
  methodNodeWidth :: rat
  methodNodeHeight :: rat

definition DEFAULT_LAYOUT_CONFIG :: LayoutConfig where
  "DEFAULT_LAYOUT_CONFIG =
     \<lparr>columnWidth = 600, rowHeight = 400, padding = 20,
      dataTypeBoxWidth = 160, dataTypeBoxHeight = 60,
      structWithMethodsBoxWidth = 320, structWithMethodsBoxHeight = 60,
      classNodeWidth = 160, classNodeHeight = 60,
      methodNodeWidth = 240, methodNodeHeight = 60\<rparr>"

record Box =
  box_node :: NodeData
  box_x :: rat
  box_y :: rat
  box_width :: rat
  box_height :: rat

definition getNodeFolder :: "NodeData \<Rightarrow> string" where
  "getNodeFolder n =
     (case filename n of
        None \<Rightarrow> []
      | Some f \<Rightarrow>
          if f = [] then []
          else join ''/'' (butlast (split_where (\<lambda>c. c = CHR ''/'' \<or> c = backslash) f)))"

text \<open>The segment's base position, as the two conditional expressions compute it.\<close>

definition baseX :: "LayoutConfig \<Rightarrow> Column \<Rightarrow> rat" where
  "baseX config column =
     (if column = ColLeft then 0
      else if column = ColMiddle then columnWidth config
      else columnWidth config * 2)"

definition baseY :: "LayoutConfig \<Rightarrow> Row \<Rightarrow> rat" where
  "baseY config row =
     (if row = RowTop then 0
      else if row = RowMiddle then rowHeight config
      else rowHeight config * 2)"

text \<open>
  The left-floating rows of boxes of the top and of the bottom row: one step of the loop
  on \<open>(currentX, currentY, maxHeightInRow, result)\<close> for boxes of a given size.
\<close>

definition float_step ::
  "LayoutConfig \<Rightarrow> rat \<Rightarrow> rat \<Rightarrow> rat \<Rightarrow> rat \<times> rat \<times> rat \<times> Box list \<Rightarrow> NodeData
   \<Rightarrow> rat \<times> rat \<times> rat \<times> Box list"
where
  "float_step config bX boxWidth boxHeight st n =
     (case st of (currentX, currentY, maxHeightInRow, result) \<Rightarrow>
        let wrap = (currentX + boxWidth > bX + columnWidth config - padding config);
            cx = (if wrap then bX + padding config else currentX);
            cy = (if wrap then currentY + (maxHeightInRow + padding config / 2) else currentY);
            mh = (if wrap then 0 else maxHeightInRow)
        in (cx + (boxWidth + padding config / 2), cy, max mh boxHeight,
            result @ [\<lparr>box_node = n, box_x = cx, box_y = cy,
                        box_width = boxWidth, box_height = boxHeight\<rparr>]))"

definition layout_top ::
  "(string \<Rightarrow> string \<Rightarrow> int) \<Rightarrow> LayoutConfig \<Rightarrow> rat \<Rightarrow> rat \<Rightarrow> NodeData list \<Rightarrow> Box list"
where
  "layout_top lc config bX bY nodes =
     (let sortedFolders = sort (remdups (map getNodeFolder nodes));
          ordered = concat (map (\<lambda>folder.
                       sort_cmp (compare_names lc)
                         (filter (\<lambda>n. getNodeFolder n = folder) nodes)) sortedFolders)
      in (case foldl (float_step config bX (dataTypeBoxWidth config) (dataTypeBoxHeight config))
                  (bX + padding config, bY + padding config, 0, []) ordered of
            (currentX, currentY, maxHeightInRow, result) \<Rightarrow> result))"

definition layout_bottom ::
  "(string \<Rightarrow> string \<Rightarrow> int) \<Rightarrow> LayoutConfig \<Rightarrow> rat \<Rightarrow> rat \<Rightarrow> NodeData list \<Rightarrow> Box list"
where
  "layout_bottom lc config bX bY nodes =
     (case foldl (float_step config bX (methodNodeWidth config) (methodNodeHeight config))
                 (bX + padding config, bY + padding config, 0, [])
                 (sort_cmp (compare_names lc) nodes) of
        (currentX, currentY, maxHeightInRow, result) \<Rightarrow> result)"

text \<open>The boxes of the methods of one group, stacked from \<open>groupY\<close> downwards; the
  result is the new \<open>groupY\<close> and the boxes.\<close>

fun method_boxes :: "LayoutConfig \<Rightarrow> rat \<Rightarrow> rat \<Rightarrow> NodeData list \<Rightarrow> rat \<times> Box list" where
  "method_boxes config currentX groupY [] = (groupY, [])"
| "method_boxes config currentX groupY (m # ms) =
     (case method_boxes config currentX
             (groupY + (methodNodeHeight config + padding config / 4)) ms of
        (groupY', boxes) \<Rightarrow>
          (groupY', \<lparr>box_node = m, box_x = currentX, box_y = groupY,
                     box_width = methodNodeWidth config,
                     box_height = methodNodeHeight config\<rparr> # boxes))"

text \<open>One iteration of \<open>groups.forEach\<close> on \<open>(currentX, currentY, result)\<close>.\<close>

definition group_step ::
  "LayoutConfig \<Rightarrow> rat \<Rightarrow> rat \<times> rat \<times> Box list \<Rightarrow> ClassWithMethods \<Rightarrow> rat \<times> rat \<times> Box list"
where
  "group_step config bY st g =
     (case st of (currentX, currentY, result) \<Rightarrow>
        let groupHeight = classNodeHeight config +
              (of_nat (length (methods g)) * (methodNodeHeight config + padding config / 4));
            newColumn =
              (groupHeight > rowHeight config - padding config * 2 \<or>
               currentY + groupHeight > bY + rowHeight config - padding config);
            cx = (if newColumn
                  then currentX + (max (classNodeWidth config) (methodNodeWidth config)
                                   + padding config)
                  else currentX);
            groupY = (if newColumn then bY + padding config else currentY);
            classBox = \<lparr>box_node = classNode g, box_x = cx, box_y = groupY,
                        box_width = classNodeWidth config,
                        box_height = classNodeHeight config\<rparr>
        in (case method_boxes config cx
                    (groupY + (classNodeHeight config + padding config / 4)) (methods g) of
              (groupY', boxes) \<Rightarrow>
                let cy = groupY' + padding config / 2
                in if cy > bY + rowHeight config - padding config - classNodeHeight config
                   then (cx + (max (classNodeWidth config) (methodNodeWidth config)
                               + padding config),
                         bY + padding config, result @ classBox # boxes)
                   else (cx, cy, result @ classBox # boxes)))"

text \<open>One iteration of the loop over the sorted orphan nodes.\<close>

definition orphan_step ::
  "LayoutConfig \<Rightarrow> rat \<Rightarrow> rat \<times> rat \<times> Box list \<Rightarrow> NodeData \<Rightarrow> rat \<times> rat \<times> Box list"
where
  "orphan_step config bY st n =
     (case st of (currentX, currentY, result) \<Rightarrow>
        let newColumn =
              (currentY + structWithMethodsBoxHeight config
                 > bY + rowHeight config - padding config);
            cx = (if newColumn
                  then currentX + (structWithMethodsBoxWidth config + padding config)
                  else currentX);
            cy = (if newColumn then bY + padding config else currentY)
        in (cx, cy + (structWithMethodsBoxHeight config + padding config / 2),
            result @ [\<lparr>box_node = n, box_x = cx, box_y = cy,
                        box_width = structWithMethodsBoxWidth config,
                        box_height = structWithMethodsBoxHeight config\<rparr>]))"

definition layout_middle ::
  "(string \<Rightarrow> string \<Rightarrow> int) \<Rightarrow> LayoutConfig \<Rightarrow> rat \<Rightarrow> rat \<Rightarrow> NodeData list \<Rightarrow> Box list"
where
  "layout_middle lc config bX bY nodes =
     (case groupClassesWithMethods lc nodes of
        (groups, orphanNodes) \<Rightarrow>
          (case foldl (orphan_step config bY)
                  (foldl (group_step config bY) (bX + padding config, bY + padding config, [])
                     groups)
                  (sort_cmp (compare_names lc) orphanNodes) of
             (currentX, currentY, result) \<Rightarrow> result))"

definition layoutNodesInSegment ::
  "(string \<Rightarrow> string \<Rightarrow> int) \<Rightarrow> NodeData list \<Rightarrow> GridSegment \<Rightarrow> LayoutConfig \<Rightarrow> Box list"
where
  "layoutNodesInSegment lc nodes segment config =
     (case segment of (column, row) \<Rightarrow>
        let bX = baseX config column;
            bY = baseY config row
        in if row = RowTop then layout_top lc config bX bY nodes
           else if row = RowMiddle then layout_middle lc config bX bY nodes
           else layout_bottom lc config bX bY nodes)"

text \<open>\<open>createGridLayout\<close>: the boxes of all segments, in the order of the map's keys.\<close>

definition createGridLayout ::
  "(string \<Rightarrow> string \<Rightarrow> int) \<Rightarrow> NodeData list \<Rightarrow> LayoutConfig \<Rightarrow> js_error + Box list"
where
  "createGridLayout lc nodes config =
     (case categorizeNodesBySegment nodes of
        Inl e \<Rightarrow> Inl e
      | Inr segmentedNodes \<Rightarrow>
          Inr (concat (map (\<lambda>segment.
                 (case segmentedNodes segment of
                    None \<Rightarrow> []
                  | Some segmentNodes \<Rightarrow>
                      layoutNodesInSegment lc segmentNodes segment config)) allSegments)))"

section \<open>Column-width allocator (gridLayoutAlgorithm)\<close>

datatype ColumnWidth = Fr1 | Fr23 | Fr13

record ColumnStats =
  stats_column :: Column
  totalNodes :: nat
  dataStructNodes :: nat
  classNodes :: nat
  freeFunctionNodes :: nat
  testNodes :: nat
  maxNodesInAnyRow :: nat

record GridLayoutConfig =
  leftColumnWidth :: ColumnWidth
  middleColumnWidth :: ColumnWidth
  rightColumnWidth :: ColumnWidth
  gatewayColumnWidth :: ColumnWidth

text \<open>\<open>nodesByRow.get(key)?.length || 0\<close>.\<close>

definition bucket_length :: "(GridSegment \<rightharpoonup> NodeData list) \<Rightarrow> GridSegment \<Rightarrow> nat" where
  "bucket_length nodesByRow key = (case nodesByRow key of None \<Rightarrow> 0 | Some b \<Rightarrow> length b)"

definition calculateColumnStats :: "Column \<Rightarrow> (GridSegment \<rightharpoonup> NodeData list) \<Rightarrow> ColumnStats" where
  "calculateColumnStats column nodesByRow =
     (let d = bucket_length nodesByRow (column, RowTop);
          c = bucket_length nodesByRow (column, RowMiddle);
          f = bucket_length nodesByRow (column, RowBottom);
          t = bucket_length nodesByRow (column, RowTests)
      in \<lparr>stats_column = column, totalNodes = d + c + f + t, dataStructNodes = d,
          classNodes = c, freeFunctionNodes = f, testNodes = t,
          maxNodesInAnyRow = max (max (max d c) f) t\<rparr>)"

definition determineColumnWidth :: "ColumnStats \<Rightarrow> ColumnStats list \<Rightarrow> ColumnWidth" where
  "determineColumnWidth stats allStats =
     (if stats_column stats = ColGateway then Fr13
      else if totalNodes stats = 0 then Fr13
      else Fr1)"

definition calculateGridLayout :: "(GridSegment \<rightharpoonup> NodeData list) \<Rightarrow> GridLayoutConfig" where
  "calculateGridLayout nodesBySegment =
     (let leftStats = calculateColumnStats ColLeft nodesBySegment;
          middleStats = calculateColumnStats ColMiddle nodesBySegment;
          rightStats = calculateColumnStats ColRight nodesBySegment;
          gatewayStats = calculateColumnStats ColGateway nodesBySegment;
          allStats = [leftStats, middleStats, rightStats, gatewayStats]
      in \<lparr>leftColumnWidth = determineColumnWidth leftStats allStats,
          middleColumnWidth = determineColumnWidth middleStats allStats,
          rightColumnWidth = determineColumnWidth rightStats allStats,
          gatewayColumnWidth = Fr13\<rparr>)"

definition columnWidthToCss :: "ColumnWidth \<Rightarrow> string" where
  "columnWidthToCss w = (case w of Fr1 \<Rightarrow> ''1fr'' | Fr23 \<Rightarrow> ''0.66fr'' | Fr13 \<Rightarrow> ''0.33fr'')"

text \<open>The number in front of \<open>fr\<close> in the value \<open>columnWidthToCss\<close> returns.\<close>

definition css_fraction :: "ColumnWidth \<Rightarrow> rat" where
  "css_fraction w = (case w of Fr1 \<Rightarrow> 1 | Fr23 \<Rightarrow> 66 / 100 | Fr13 \<Rightarrow> 33 / 100)"

section \<open>Auxiliary predicates and example inputs\<close>

text \<open>The nodes a segment's bucket receives: the nodes that are no crates and whose
  column and row are the segment's.\<close>

definition node_in_segment :: "GridSegment \<Rightarrow> NodeData \<Rightarrow> bool" where
  "node_in_segment seg n = (\<not> isCrate n \<and> (node_column n, node_row n) = seg)"

text \<open>The node of the specification's scenario C, as a method node, and a crate whose
  file lies under \<open>tests/\<close>.\<close>

definition scenario_c_node :: NodeData where
  "scenario_c_node =
     \<lparr>node_id = ''crate::x|class_struct::Y|method::z'', node_type = ''method'', name = ''z'',
      is_public = True, filename = Some ''tests/y_test.rs'', start_line = None,
      end_line = None, container = None, description = None, source_code = None,
      details = Some [], hierarchy = None\<rparr>"

definition test_crate_node :: NodeData where
  "test_crate_node =
     \<lparr>node_id = ''crate::x_tests'', node_type = ''crate'', name = ''x_tests'',
      is_public = True, filename = Some ''tests/lib.rs'', start_line = None,
      end_line = None, container = None, description = None, source_code = None,
      details = Some [], hierarchy = None\<rparr>"

text \<open>
  A class \<open>Foo\<close> in \<open>src/foo.rs\<close>, its method \<open>bar\<close> declared in a file under
  \<open>tests/\<close>, the \<open>includes\<close> edge between them, and a method \<open>baz\<close> of a class
  \<open>Zed\<close> that is no node.
\<close>

definition class_foo_node :: NodeData where
  "class_foo_node =
     \<lparr>node_id = ''crate::x|class_struct::Foo'', node_type = ''class_struct'', name = ''Foo'',
      is_public = True, filename = Some ''src/foo.rs'', start_line = None,
      end_line = None, container = None, description = None, source_code = None,
      details = Some [], hierarchy = None\<rparr>"

definition method_bar_node :: NodeData where
  "method_bar_node =
     \<lparr>node_id = ''crate::x|class_struct::Foo|method::bar'', node_type = ''method'',
      name = ''bar'', is_public = True, filename = Some ''tests/foo_checks.rs'',
      start_line = None, end_line = None, container = None, description = None,
      source_code = None, details = Some [], hierarchy = None\<rparr>"

definition method_baz_node :: NodeData where
  "method_baz_node =
     \<lparr>node_id = ''crate::x|class_struct::Zed|method::baz'', node_type = ''method'',
      name = ''baz'', is_public = True, filename = Some ''src/zed.rs'',
      start_line = None, end_line = None, container = None, description = None,
      source_code = None, details = Some [], hierarchy = None\<rparr>"

definition foo_includes_bar :: Edge where
  "foo_includes_bar =
     \<lparr>edge_from = ''crate::x|class_struct::Foo'',
      edge_to = ''crate::x|class_struct::Foo|method::bar'', edge_type = ''includes''\<rparr>"

text \<open>A class whose id is the empty string, and a method whose id without its last
  part is the empty string.\<close>

definition empty_id_class_node :: NodeData where
  "empty_id_class_node =
     \<lparr>node_id = [], node_type = ''class_struct'', name = ''Anon'',
      is_public = True, filename = Some ''src/anon.rs'', start_line = None,
      end_line = None, container = None, description = None, source_code = None,
      details = Some [], hierarchy = None\<rparr>"

definition pipe_method_node :: NodeData where
  "pipe_method_node =
     \<lparr>node_id = ''|method::m'', node_type = ''method'', name = ''m'',
      is_public = True, filename = Some ''src/anon.rs'', start_line = None,
      end_line = None, container = None, description = None, source_code = None,
      details = Some [], hierarchy = None\<rparr>"

text \<open>Invariants of the packers' loops for the bound on the container height.\<close>

definition shelf_height_inv :: "'d Shelf list \<times> 'd PackedItem list \<times> int \<Rightarrow> bool" where
  "shelf_height_inv st =
     (case st of (ss, packed, cy) \<Rightarrow>
        (\<forall>s \<in> set ss. shelf_y s + shelf_height s \<le> cy) \<and>
        (\<forall>q \<in> set packed. pos_y q + height q \<le> cy))"

definition column_height_inv :: "nat \<Rightarrow> 'd PackedItem list list \<times> int list \<Rightarrow> bool" where
  "column_height_inv n st =
     (case st of (columns, columnHeights) \<Rightarrow>
        length columns = n \<and> length columnHeights = n \<and>
        (\<forall>c < n. \<forall>q \<in> set (columns ! c). pos_y q + height q \<le> columnHeights ! c))"

text \<open>The test of the guillotine packer's search: the free rectangle is large enough for
  the padded item.\<close>

definition rect_fits :: "FreeRect \<Rightarrow> int \<Rightarrow> int \<Rightarrow> bool" where
  "rect_fits r itemWidth itemHeight =
     (rect_width r \<ge> itemWidth \<and> ext_le (Fin itemHeight) (rect_height r))"

text \<open>The free rectangles stay inside the container's interior width, and so do the
  placed items.\<close>

definition guillotine_width_inv ::
  "int \<Rightarrow> int \<Rightarrow> FreeRect list \<times> 'd PackedItem list \<Rightarrow> bool"
where
  "guillotine_width_inv p cw st =
     (case st of (frs, packed) \<Rightarrow>
        (\<forall>r \<in> set frs. p \<le> rect_x r \<and> rect_x r + rect_width r \<le> cw - p) \<and>
        (\<forall>q \<in> set packed. p \<le> pos_x q \<and> pos_x q + width q + p \<le> cw - p))"



text \<open>The items of a result of the column packer, which may throw.\<close>

definition result_items :: "js_error + 'd PackingResult \<Rightarrow> 'd PackedItem list" where
  "result_items r = (case r of Inl e \<Rightarrow> [] | Inr res \<Rightarrow> items res)"














text \<open>The container height of a result of the column packer, which may throw.\<close>

definition result_height :: "js_error + 'd PackingResult \<Rightarrow> int" where
  "result_height r = (case r of Inl e \<Rightarrow> 0 | Inr res \<Rightarrow> containerHeight res)"

text \<open>Options with a negative padding, which \<open>options.padding || 3\<close> keeps.\<close>

definition shelf_options_padding :: "int \<Rightarrow> ShelfOptions" where
  "shelf_options_padding p = \<lparr>sh_padding = Some p, sh_sortByHeight = None\<rparr>"

definition guillotine_options_padding :: "int \<Rightarrow> GuillotineOptions" where
  "guillotine_options_padding p = \<lparr>gu_padding = Some p\<rparr>"

definition column_options_padding :: "int \<Rightarrow> ColumnOptions" where
  "column_options_padding p =
     \<lparr>co_padding = Some p, co_minColumnWidth = None, co_maxColumns = None\<rparr>"

text \<open>One item of 10 by 38, one of 10 by 10, and a pair whose second item has a negative
  height.\<close>

definition tall_item :: "unit PackableItem list" where
  "tall_item = [\<lparr>item_id = ''q'', width = 10, height = 38, data = ()\<rparr>]"

definition square_item :: "unit PackableItem list" where
  "square_item = [\<lparr>item_id = ''s'', width = 10, height = 10, data = ()\<rparr>]"

definition sinking_items :: "unit PackableItem list" where
  "sinking_items =
     [\<lparr>item_id = ''up'', width = 50, height = 10, data = ()\<rparr>,
      \<lparr>item_id = ''down'', width = 60, height = -20, data = ()\<rparr>]"


text \<open>An item wider than a container of width 60, and one that fits.\<close>

definition oversize_items :: "unit PackableItem list" where
  "oversize_items =
     [\<lparr>item_id = ''wide'', width = 100, height = 10, data = ()\<rparr>,
      \<lparr>item_id = ''small'', width = 10, height = 10, data = ()\<rparr>]"

text \<open>Three items for evaluating the packers.\<close>

definition three_items :: "unit PackableItem list" where
  "three_items =
     [\<lparr>item_id = ''a'', width = 40, height = 30, data = ()\<rparr>,
      \<lparr>item_id = ''b'', width = 50, height = 20, data = ()\<rparr>,
      \<lparr>item_id = ''c'', width = 30, height = 40, data = ()\<rparr>]"

section \<open>Shelf packing on the specification's example\<close>

text \<open>
  C5, as the specification states it, fails: with two items of 50 by 30 in a container of
  width 60 and the default padding 3, the second item's \<open>y\<close> is 36, not the first
  item's height plus the padding, 33.
\<close>

theorem C5_counterexample:
  "pos_y (items (packItems
       [\<lparr>item_id = ''a'', width = 50, height = 30, data = ()\<rparr>,
        \<lparr>item_id = ''b'', width = 50, height = 30, data = ()\<rparr>] 60 default_shelf_options) ! 1)
   \<noteq> 30 + or_default (sh_padding default_shelf_options) 3"
  by (simp add: packItems_def default_shelf_options_def or_default_def shelf_step_def
      place_at_def Let_def sort_cmp_def)

text \<open>
  C5, amended: the second item does not fit on the first shelf and opens a new one, at
  \<open>x = padding\<close> and \<open>y = padding + (firstItemHeight + padding)\<close>: the first shelf
  starts at \<open>y = padding\<close> and is as high as the first item plus the padding.
\<close>

theorem C5_second_item_on_new_shelf:
  "items (packItems
       [\<lparr>item_id = ia, width = 50, height = 30, data = da\<rparr>,
        \<lparr>item_id = ib, width = 50, height = 30, data = db\<rparr>] 60 default_shelf_options)
   = [\<lparr>item_id = ia, width = 50, height = 30, data = da, pos_x = 3, pos_y = 3\<rparr>,
      \<lparr>item_id = ib, width = 50, height = 30, data = db,
        pos_x = or_default (sh_padding default_shelf_options) 3,
        pos_y = or_default (sh_padding default_shelf_options) 3
                + (30 + or_default (sh_padding default_shelf_options) 3)\<rparr>]"
  by (simp add: packItems_def default_shelf_options_def or_default_def shelf_step_def
      place_at_def Let_def sort_cmp_def)

section \<open>The base position of a segment\<close>

text \<open>
  C4: the code gives the gateway column the base x of the right column, and the tests row
  the base y (and the layout) of the bottom row, so a segment's boxes are laid out exactly
  as those of its neighbour: the conditional expressions know three columns and three
  rows only.
\<close>

theorem C4_gateway_and_tests_share_base:
  "layoutNodesInSegment lc nodes (ColGateway, row) config
     = layoutNodesInSegment lc nodes (ColRight, row) config \<and>
   layoutNodesInSegment lc nodes (column, RowTests) config
     = layoutNodesInSegment lc nodes (column, RowBottom) config \<and>
   baseX config ColGateway = baseX config ColRight \<and>
   baseY config RowTests = baseY config RowBottom \<and>
   baseX DEFAULT_LAYOUT_CONFIG ColGateway = 1200 \<and>
   baseY DEFAULT_LAYOUT_CONFIG RowTests = 800"
  by (simp add: layoutNodesInSegment_def baseX_def baseY_def DEFAULT_LAYOUT_CONFIG_def)

section \<open>The column-width allocator\<close>

text \<open>
  C7: the gateway column always gets \<open>1/3fr\<close>, the narrowest of the weights; each of
  the left, middle and right columns gets \<open>1/3fr\<close> when its four buckets hold no node,
  and \<open>1fr\<close> otherwise.
\<close>

theorem C7_column_widths:
  "gatewayColumnWidth (calculateGridLayout m) = Fr13 \<and>
   determineColumnWidth (calculateColumnStats ColGateway m) allStats = Fr13 \<and>
   leftColumnWidth (calculateGridLayout m) =
     (if bucket_length m (ColLeft, RowTop) + bucket_length m (ColLeft, RowMiddle)
         + bucket_length m (ColLeft, RowBottom) + bucket_length m (ColLeft, RowTests) = 0
      then Fr13 else Fr1) \<and>
   middleColumnWidth (calculateGridLayout m) =
     (if bucket_length m (ColMiddle, RowTop) + bucket_length m (ColMiddle, RowMiddle)
         + bucket_length m (ColMiddle, RowBottom) + bucket_length m (ColMiddle, RowTests) = 0
      then Fr13 else Fr1) \<and>
   rightColumnWidth (calculateGridLayout m) =
     (if bucket_length m (ColRight, RowTop) + bucket_length m (ColRight, RowMiddle)
         + bucket_length m (ColRight, RowBottom) + bucket_length m (ColRight, RowTests) = 0
      then Fr13 else Fr1) \<and>
   css_fraction Fr13 \<le> css_fraction w \<and> css_fraction Fr13 < css_fraction Fr1"
  by (cases w) (simp_all add: calculateGridLayout_def determineColumnWidth_def
      calculateColumnStats_def css_fraction_def Let_def)

section \<open>The classifier's buckets\<close>

lemma empty_segments_all: "empty_segments = (\<lambda>seg. Some [])"
proof
  fix seg :: GridSegment
  obtain c r where seg: "seg = (c, r)" by (cases seg)
  show "empty_segments seg = Some []"
    unfolding seg by (cases c; cases r; simp add: empty_segments_def allSegments_def)
qed

lemma allSegments_all: "set allSegments = UNIV"
proof -
  have "seg \<in> set allSegments" for seg :: GridSegment
  proof -
    obtain c r where seg: "seg = (c, r)" by (cases seg)
    show ?thesis unfolding seg by (cases c; cases r; simp add: allSegments_def)
  qed
  then show ?thesis by blast
qed

lemma allSegments_distinct: "distinct allSegments \<and> length allSegments = 16"
  by (simp add: allSegments_def)

lemma categorize_step_total:
  "categorize_step (\<lambda>seg. Some (b seg)) n =
     Inr (\<lambda>seg. Some (b seg @ filter (node_in_segment seg) [n]))"
  by (auto simp: categorize_step_def node_in_segment_def Let_def fun_eq_iff)

lemma fold_categorize:
  "fold_err categorize_step (\<lambda>seg. Some (b seg)) nodes =
     Inr (\<lambda>seg. Some (b seg @ filter (node_in_segment seg) nodes))"
proof (induction nodes arbitrary: b)
  case Nil
  show ?case by simp
next
  case (Cons n nodes)
  have "fold_err categorize_step (\<lambda>seg. Some (b seg)) (n # nodes) =
        fold_err categorize_step (\<lambda>seg. Some (b seg @ filter (node_in_segment seg) [n])) nodes"
    by (simp add: categorize_step_total)
  also have "\<dots> = Inr (\<lambda>seg. Some ((b seg @ filter (node_in_segment seg) [n])
                       @ filter (node_in_segment seg) nodes))"
    by (rule Cons.IH)
  finally show ?case by (simp add: fun_eq_iff)
qed

lemma categorize_buckets:
  "categorizeNodesBySegment nodes = Inr (\<lambda>seg. Some (filter (node_in_segment seg) nodes))"
  using fold_categorize [of "\<lambda>seg. []" nodes]
  by (simp add: categorizeNodesBySegment_def empty_segments_all)

lemma scenario_c_not_crate: "\<not> isCrate scenario_c_node"
  by code_simp

lemma scenario_c_column: "node_column scenario_c_node = ColMiddle"
  by code_simp

lemma scenario_c_row: "node_row scenario_c_node = RowTests"
  by code_simp

lemma scenario_c_path:
  "str_includes (toLowerCase (filename_or_empty scenario_c_node)) ''tests/''"
  by code_simp

lemma test_crate_is_crate: "isCrate test_crate_node"
  by code_simp

lemma test_crate_path:
  "str_includes (toLowerCase (filename_or_empty test_crate_node)) ''tests/''"
  by code_simp

text \<open>
  C2: the classifier always returns a map; its keys are the 16 segments; the bucket of a
  segment is the input list filtered, in order, to the nodes that are no crates and belong
  to the segment. Hence the buckets are pairwise disjoint, every node that is no crate is
  in exactly one bucket, and the union of the buckets is the input without the crates.
\<close>

theorem C2_sixteen_disjoint_buckets:
  "\<exists>m. categorizeNodesBySegment nodes = Inr m \<and>
       dom m = set allSegments \<and> distinct allSegments \<and> length allSegments = 16 \<and>
       (\<forall>s. m s = Some (filter (\<lambda>n. \<not> isCrate n \<and> (node_column n, node_row n) = s) nodes)) \<and>
       (\<forall>s t bs bt. m s = Some bs \<and> m t = Some bt \<and> s \<noteq> t \<longrightarrow> set bs \<inter> set bt = {}) \<and>
       (\<forall>n \<in> set nodes. \<not> isCrate n \<longrightarrow> (\<exists>!s. \<exists>b. m s = Some b \<and> n \<in> set b)) \<and>
       (\<Union>s \<in> set allSegments. set (the (m s))) = {n \<in> set nodes. \<not> isCrate n}"
proof -
  let ?m = "\<lambda>seg. Some (filter (node_in_segment seg) nodes)"
  have m: "categorizeNodesBySegment nodes = Inr ?m" by (rule categorize_buckets)
  have d: "dom ?m = set allSegments" by (auto simp: allSegments_all)
  have c: "\<forall>s. ?m s = Some (filter (\<lambda>n. \<not> isCrate n \<and> (node_column n, node_row n) = s) nodes)"
    by (simp add: node_in_segment_def [abs_def])
  have p: "\<forall>s t bs bt. ?m s = Some bs \<and> ?m t = Some bt \<and> s \<noteq> t \<longrightarrow> set bs \<inter> set bt = {}"
    by (auto simp: node_in_segment_def)
  have e: "\<forall>n \<in> set nodes. \<not> isCrate n \<longrightarrow> (\<exists>!s. \<exists>b. ?m s = Some b \<and> n \<in> set b)"
    by (auto simp: node_in_segment_def)
  have u: "(\<Union>s \<in> set allSegments. set (the (?m s))) = {n \<in> set nodes. \<not> isCrate n}"
    by (auto simp: node_in_segment_def allSegments_all)
  show ?thesis
    using m d c p e u allSegments_distinct by blast
qed

theorem C2_witness:
  "segment_bucket (categorizeNodesBySegment [scenario_c_node, test_crate_node])
      (ColMiddle, RowTests) = Some [scenario_c_node] \<and>
   segment_bucket (categorizeNodesBySegment [scenario_c_node, test_crate_node])
      (ColMiddle, RowMiddle) = Some [] \<and>
   scenario_c_node \<in> set [scenario_c_node, test_crate_node] \<and> \<not> isCrate scenario_c_node"
proof -
  from C2_sixteen_disjoint_buckets [of "[scenario_c_node, test_crate_node]"]
  obtain m where m: "categorizeNodesBySegment [scenario_c_node, test_crate_node] = Inr m"
    and b: "\<forall>s. m s = Some (filter (\<lambda>n. \<not> isCrate n \<and> (node_column n, node_row n) = s)
                               [scenario_c_node, test_crate_node])"
    by (elim exE conjE) (rule that, assumption+)
  show ?thesis
    using b scenario_c_not_crate test_crate_is_crate scenario_c_column scenario_c_row
    by (simp add: m segment_bucket_def)
qed

section \<open>Nodes under a tests folder\<close>

lemma tests_path_is_test_node:
  "str_includes (toLowerCase (filename_or_empty n)) ''tests/'' \<Longrightarrow> isTestNode n"
  by (simp add: isTestNode_def Let_def)

text \<open>
  C6, as stated, fails for one type tag: a crate whose file lies under \<open>tests/\<close> is
  skipped by the classifier and reaches no bucket, so none of the four tests segments.
\<close>

theorem C6_counterexample:
  "str_includes (toLowerCase (filename_or_empty test_crate_node)) ''tests/'' \<and>
   segment_bucket (categorizeNodesBySegment [test_crate_node]) (ColLeft, RowTests) = Some [] \<and>
   segment_bucket (categorizeNodesBySegment [test_crate_node]) (ColMiddle, RowTests) = Some [] \<and>
   segment_bucket (categorizeNodesBySegment [test_crate_node]) (ColRight, RowTests) = Some [] \<and>
   segment_bucket (categorizeNodesBySegment [test_crate_node]) (ColGateway, RowTests) = Some []"
  using test_crate_is_crate test_crate_path
  by (simp add: categorize_buckets segment_bucket_def node_in_segment_def)

text \<open>
  C6, amended: every node that is no crate and whose lower-cased path contains
  \<open>tests/\<close> gets the row tests whatever its type tag is: it is in the bucket of its
  column's tests segment and in no other bucket.
\<close>

theorem C6_tests_path_gives_tests_row:
  assumes "str_includes (toLowerCase (filename_or_empty n)) ''tests/''"
    and "\<not> isCrate n" and "n \<in> set nodes"
  shows "node_row n = RowTests \<and>
         (\<exists>b. segment_bucket (categorizeNodesBySegment nodes) (node_column n, RowTests) = Some b
              \<and> n \<in> set b) \<and>
         (\<forall>s b. segment_bucket (categorizeNodesBySegment nodes) s = Some b \<and> n \<in> set b
              \<longrightarrow> s = (node_column n, RowTests))"
proof -
  have r: "node_row n = RowTests"
    using assms(1) by (simp add: node_row_def tests_path_is_test_node)
  show ?thesis
    using r assms(2,3)
    by (auto simp: categorize_buckets segment_bucket_def node_in_segment_def)
qed

theorem C6_witness:
  "node_row scenario_c_node = RowTests \<and>
   segment_bucket (categorizeNodesBySegment [scenario_c_node]) (ColMiddle, RowTests)
     = Some [scenario_c_node] \<and>
   str_includes (toLowerCase (filename_or_empty scenario_c_node)) ''tests/''"
proof -
  have i: "scenario_c_node \<in> set [scenario_c_node]" by simp
  from C6_tests_path_gives_tests_row [OF scenario_c_path scenario_c_not_crate i]
  have r: "node_row scenario_c_node = RowTests" by (rule conjunct1)
  show ?thesis using r scenario_c_not_crate scenario_c_column scenario_c_path
    by (simp add: categorize_buckets segment_bucket_def node_in_segment_def)
qed

section \<open>Sorting keeps the elements\<close>

lemma mset_insert_cmp: "mset (insert_cmp c a xs) = add_mset a (mset xs)"
  by (induction xs) simp_all

lemma mset_sort_cmp: "mset (sort_cmp c xs) = mset xs"
  by (induction xs) (simp_all add: sort_cmp_def mset_insert_cmp)

lemma set_sort_cmp: "set (sort_cmp c xs) = set xs"
  using mset_sort_cmp [of c xs] by (metis set_mset_mset)

lemma length_sort_cmp: "length (sort_cmp c xs) = length xs"
  using mset_sort_cmp [of c xs] by (metis size_mset)

section \<open>Methods in the middle row\<close>

lemma method_boxes_nodes:
  "method_boxes config cx gy ms = (gy', boxes) \<Longrightarrow> map box_node boxes = ms"
proof (induction ms arbitrary: gy gy' boxes)
  case Nil
  then show ?case by simp
next
  case (Cons m ms)
  then show ?case by (auto split: prod.splits)
qed

lemma group_step_nodes:
  assumes "group_step config bY (cx, cy, res) g = (cx', cy', res')"
  shows "map box_node res' = map box_node res @ classNode g # methods g"
  using assms
  by (auto simp: group_step_def Let_def split: prod.splits if_splits
      dest: method_boxes_nodes)

lemma foldl_group_step_nodes:
  "foldl (group_step config bY) (cx, cy, res) gs = (cx', cy', res') \<Longrightarrow>
   map box_node res' = map box_node res @ concat (map (\<lambda>g. classNode g # methods g) gs)"
proof (induction gs arbitrary: cx cy res)
  case Nil
  then show ?case by simp
next
  case (Cons g gs)
  obtain cx1 cy1 res1 where s: "group_step config bY (cx, cy, res) g = (cx1, cy1, res1)"
    by (cases "group_step config bY (cx, cy, res) g")
  from Cons.prems have "foldl (group_step config bY) (cx1, cy1, res1) gs = (cx', cy', res')"
    by (simp add: s)
  from Cons.IH [OF this] group_step_nodes [OF s] show ?case by simp
qed

lemma orphan_step_nodes:
  assumes "orphan_step config bY (cx, cy, res) n = (cx', cy', res')"
  shows "map box_node res' = map box_node res @ [n]"
  using assms by (auto simp: orphan_step_def Let_def)

lemma foldl_orphan_step_nodes:
  "foldl (orphan_step config bY) (cx, cy, res) ns = (cx', cy', res') \<Longrightarrow>
   map box_node res' = map box_node res @ ns"
proof (induction ns arbitrary: cx cy res)
  case Nil
  then show ?case by simp
next
  case (Cons n ns)
  obtain cx1 cy1 res1 where s: "orphan_step config bY (cx, cy, res) n = (cx1, cy1, res1)"
    by (cases "orphan_step config bY (cx, cy, res) n")
  from Cons.prems have "foldl (orphan_step config bY) (cx1, cy1, res1) ns = (cx', cy', res')"
    by (simp add: s)
  from Cons.IH [OF this] orphan_step_nodes [OF s] show ?case by simp
qed

lemma layout_middle_nodes:
  "map box_node (layout_middle lc config bX bY nodes) =
     concat (map (\<lambda>g. classNode g # methods g) (fst (groupClassesWithMethods lc nodes)))
     @ sort_cmp (compare_names lc) (snd (groupClassesWithMethods lc nodes))"
proof -
  obtain gs os where g: "groupClassesWithMethods lc nodes = (gs, os)"
    by (cases "groupClassesWithMethods lc nodes")
  obtain cx1 cy1 res1 where
    s1: "foldl (group_step config bY) (bX + padding config, bY + padding config, []) gs
           = (cx1, cy1, res1)"
    by (cases "foldl (group_step config bY) (bX + padding config, bY + padding config, []) gs")
  obtain cx2 cy2 res2 where
    s2: "foldl (orphan_step config bY) (cx1, cy1, res1) (sort_cmp (compare_names lc) os)
           = (cx2, cy2, res2)"
    by (cases "foldl (orphan_step config bY) (cx1, cy1, res1) (sort_cmp (compare_names lc) os)")
  have "layout_middle lc config bX bY nodes = res2"
    by (simp add: layout_middle_def g s1 s2)
  then show ?thesis
    using foldl_group_step_nodes [OF s1] foldl_orphan_step_nodes [OF s2] by (simp add: g)
qed

lemma methodsByClass_step_apply:
  "methodsByClass_step m x k =
     (if getParentClassId x = Some k \<and> k \<noteq> []
      then Some ((case m k of None \<Rightarrow> [] | Some l \<Rightarrow> l) @ [x]) else m k)"
  by (auto simp: methodsByClass_step_def split: option.splits)

lemma foldl_methodsByClass:
  "foldl methodsByClass_step m0 ms k =
     (if filter (\<lambda>x. getParentClassId x = Some k \<and> k \<noteq> []) ms = [] then m0 k
      else Some ((case m0 k of None \<Rightarrow> [] | Some l \<Rightarrow> l)
                 @ filter (\<lambda>x. getParentClassId x = Some k \<and> k \<noteq> []) ms))"
proof (induction ms arbitrary: m0)
  case Nil
  show ?case by simp
next
  case (Cons x ms)
  have "foldl methodsByClass_step m0 (x # ms) k =
        foldl methodsByClass_step (methodsByClass_step m0 x) ms k"
    by simp
  also have "\<dots> =
     (if filter (\<lambda>x. getParentClassId x = Some k \<and> k \<noteq> []) ms = []
      then methodsByClass_step m0 x k
      else Some ((case methodsByClass_step m0 x k of None \<Rightarrow> [] | Some l \<Rightarrow> l)
                 @ filter (\<lambda>x. getParentClassId x = Some k \<and> k \<noteq> []) ms))"
    by (rule Cons.IH)
  finally have f: "foldl methodsByClass_step m0 (x # ms) k =
     (if filter (\<lambda>x. getParentClassId x = Some k \<and> k \<noteq> []) ms = []
      then methodsByClass_step m0 x k
      else Some ((case methodsByClass_step m0 x k of None \<Rightarrow> [] | Some l \<Rightarrow> l)
                 @ filter (\<lambda>x. getParentClassId x = Some k \<and> k \<noteq> []) ms))" .
  have s: "methodsByClass_step m0 x k =
     (if getParentClassId x = Some k \<and> k \<noteq> []
      then Some ((case m0 k of None \<Rightarrow> [] | Some l \<Rightarrow> l) @ [x]) else m0 k)"
    by (rule methodsByClass_step_apply)
  show ?case unfolding f s by auto
qed

lemma make_groups_members:
  "g \<in> set (make_groups lc m cs) \<Longrightarrow>
   classNode g \<in> set cs \<and>
   mset (methods g) = (case m (node_id (classNode g)) of None \<Rightarrow> {#} | Some l \<Rightarrow> mset l)"
proof (induction cs arbitrary: m)
  case Nil
  then show ?case by simp
next
  case (Cons c cs)
  show ?case
  proof (cases "m (node_id c)")
    case None
    with Cons.prems have "g = \<lparr>classNode = c, methods = []\<rparr> \<or> g \<in> set (make_groups lc m cs)"
      by simp
    then show ?thesis using Cons.IH [of m] None by auto
  next
    case (Some ms)
    let ?m' = "m(node_id c \<mapsto> sort_cmp (compare_names lc) ms)"
    from Cons.prems Some
    have "g = \<lparr>classNode = c, methods = sort_cmp (compare_names lc) ms\<rparr>
          \<or> g \<in> set (make_groups lc ?m' cs)"
      by (simp add: Let_def)
    then show ?thesis
    proof
      assume "g = \<lparr>classNode = c, methods = sort_cmp (compare_names lc) ms\<rparr>"
      then show ?thesis using Some by (simp add: mset_sort_cmp)
    next
      assume "g \<in> set (make_groups lc ?m' cs)"
      from Cons.IH [OF this] show ?thesis using Some by (auto simp: mset_sort_cmp)
    qed
  qed
qed

lemma map_classNode_make_groups: "map classNode (make_groups lc m cs) = cs"
  by (induction cs arbitrary: m) (auto simp: Let_def split: option.splits)

lemma groups_members:
  assumes "g \<in> set (fst (groupClassesWithMethods lc nodes))"
  shows "classNode g \<in> set nodes \<and> isClassStruct (classNode g) \<and>
         mset (methods g) =
           mset (filter (\<lambda>x. isMethod x \<and> getParentClassId x = Some (node_id (classNode g))
                              \<and> node_id (classNode g) \<noteq> []) nodes)"
proof -
  let ?mbc = "foldl methodsByClass_step Map.empty (filter isMethod nodes)"
  from assms have "g \<in> set (make_groups lc ?mbc (filter isClassStruct nodes))"
    by (simp add: groupClassesWithMethods_def Let_def set_sort_cmp)
  from make_groups_members [OF this]
  have c: "classNode g \<in> set (filter isClassStruct nodes)"
    and m: "mset (methods g) =
              (case ?mbc (node_id (classNode g)) of None \<Rightarrow> {#} | Some l \<Rightarrow> mset l)"
    by simp_all
  have "(case ?mbc (node_id (classNode g)) of None \<Rightarrow> {#} | Some l \<Rightarrow> mset l) =
        mset (filter (\<lambda>x. getParentClassId x = Some (node_id (classNode g))
                              \<and> node_id (classNode g) \<noteq> []) (filter isMethod nodes))"
    by (auto simp: foldl_methodsByClass filter_empty_conv)
  also have "\<dots> = mset (filter (\<lambda>x. isMethod x \<and> getParentClassId x = Some (node_id (classNode g))
                              \<and> node_id (classNode g) \<noteq> []) nodes)"
    by (simp add: conj_commute)
  finally show ?thesis using c m by simp
qed

lemma class_is_no_method: "isClassStruct n \<Longrightarrow> \<not> isMethod n"
  by (auto simp: isClassStruct_def isMethod_def)

text \<open>
  C10: in a middle-row segment, a method node whose parent class id is the id of no
  class_struct node of the segment's node list is the node of no box of the layout; and
  the orphan nodes, laid out one box each after the groups, contain no method node.
\<close>

theorem C10_unmatched_methods_dropped:
  assumes "isMethod m"
    and "\<forall>c \<in> set nodes. isClassStruct c \<longrightarrow> getParentClassId m \<noteq> Some (node_id c)"
  shows "m \<notin> box_node ` set (layoutNodesInSegment lc nodes (column, RowMiddle) config) \<and>
         (\<forall>n \<in> set (snd (groupClassesWithMethods lc nodes)). \<not> isMethod n)"
proof -
  have o: "\<forall>n \<in> set (snd (groupClassesWithMethods lc nodes)). \<not> isMethod n"
    by (simp add: groupClassesWithMethods_def Let_def)
  have "m \<notin> set (map box_node (layout_middle lc config bX bY nodes))" for bX bY
  proof
    assume "m \<in> set (map box_node (layout_middle lc config bX bY nodes))"
    then consider
      g where "g \<in> set (fst (groupClassesWithMethods lc nodes))" "m = classNode g"
    | g where "g \<in> set (fst (groupClassesWithMethods lc nodes))" "m \<in> set (methods g)"
    | "m \<in> set (snd (groupClassesWithMethods lc nodes))"
      by (auto simp: layout_middle_nodes set_sort_cmp)
    then show False
    proof cases
      case 1
      with groups_members [OF 1(1)] assms(1) show False
        by (auto dest: class_is_no_method)
    next
      case 2
      from groups_members [OF 2(1)]
      have c: "classNode g \<in> set nodes" "isClassStruct (classNode g)"
        and e: "mset (methods g) =
           mset (filter (\<lambda>x. isMethod x \<and> getParentClassId x = Some (node_id (classNode g))
                              \<and> node_id (classNode g) \<noteq> []) nodes)"
        by simp_all
      from mset_eq_setD [OF e] 2(2)
      have "getParentClassId m = Some (node_id (classNode g))" by simp
      then show False using assms(2) c by blast
    next
      case 3
      with o assms(1) show False by blast
    qed
  qed
  then show ?thesis using o by (auto simp: layoutNodesInSegment_def Let_def)
qed


lemma baz_is_method: "isMethod method_baz_node"
  by code_simp

lemma baz_has_no_class:
  "\<forall>c \<in> set [class_foo_node, method_baz_node].
     isClassStruct c \<longrightarrow> getParentClassId method_baz_node \<noteq> Some (node_id c)"
  by code_simp

theorem C10_witness:
  "isMethod method_baz_node \<and>
   method_baz_node \<notin> box_node ` set (layoutNodesInSegment byteCompare
      [class_foo_node, method_baz_node] (ColMiddle, RowMiddle) DEFAULT_LAYOUT_CONFIG) \<and>
   getParentClassId method_baz_node \<noteq> Some (node_id class_foo_node)"
proof -
  from C10_unmatched_methods_dropped [OF baz_is_method baz_has_no_class]
  have "method_baz_node \<notin> box_node ` set (layoutNodesInSegment byteCompare
      [class_foo_node, method_baz_node] (ColMiddle, RowMiddle) DEFAULT_LAYOUT_CONFIG)"
    by (rule conjunct1)
  moreover have "getParentClassId method_baz_node \<noteq> Some (node_id class_foo_node)"
    by code_simp
  ultimately show ?thesis using baz_is_method by simp
qed

section \<open>Class and method association\<close>

lemma classStructMethods_step_apply:
  "classStructMethods_step allNodes m e k =
     (if is_ownership_edge e \<and> edge_from e = k
      then Some ((case m k of None \<Rightarrow> [] | Some l \<Rightarrow> l)
                 @ (case find (\<lambda>n. node_id n = edge_to e) allNodes of
                      None \<Rightarrow> [] | Some n \<Rightarrow> [n]))
      else m k)"
  by (auto simp: classStructMethods_step_def is_ownership_edge_def Let_def split: option.splits)

lemma foldl_classStructMethods:
  "foldl (classStructMethods_step allNodes) m0 es k =
     (if filter (\<lambda>e. is_ownership_edge e \<and> edge_from e = k) es = [] then m0 k
      else Some ((case m0 k of None \<Rightarrow> [] | Some l \<Rightarrow> l)
                 @ List.map_filter (\<lambda>e. find (\<lambda>n. node_id n = edge_to e) allNodes)
                     (filter (\<lambda>e. is_ownership_edge e \<and> edge_from e = k) es)))"
proof (induction es arbitrary: m0)
  case Nil
  show ?case by simp
next
  case (Cons e es)
  let ?own = "\<lambda>e. is_ownership_edge e \<and> edge_from e = k"
  let ?res = "\<lambda>e. find (\<lambda>n. node_id n = edge_to e) allNodes"
  let ?m1 = "classStructMethods_step allNodes m0 e"
  have f: "foldl (classStructMethods_step allNodes) m0 (e # es) k =
     (if filter ?own es = [] then ?m1 k
      else Some ((case ?m1 k of None \<Rightarrow> [] | Some l \<Rightarrow> l)
                 @ List.map_filter ?res (filter ?own es)))"
    using Cons.IH [of ?m1] by simp
  have s: "?m1 k =
     (if ?own e
      then Some ((case m0 k of None \<Rightarrow> [] | Some l \<Rightarrow> l)
                 @ (case ?res e of None \<Rightarrow> [] | Some n \<Rightarrow> [n]))
      else m0 k)"
    by (rule classStructMethods_step_apply)
  show ?case unfolding f s by (auto simp: map_filter_simps split: option.splits)
qed

lemma classStructMethodsMap_is_reference:
  "classStructMethodsMap lc allNodes erdEdges = reference_class_methods lc allNodes erdEdges"
  by (rule ext)
    (simp add: classStructMethodsMap_def reference_class_methods_def Let_def
      foldl_classStructMethods)

lemma example_rows:
  "node_column class_foo_node = ColMiddle" "node_row class_foo_node = RowMiddle"
  "node_column method_bar_node = ColMiddle" "node_row method_bar_node = RowTests"
  "\<not> isCrate class_foo_node" "\<not> isCrate method_bar_node"
  by code_simp+

text \<open>
  C3, as stated, fails for the association the layout engine computes
  (\<open>groupClassesWithMethods\<close>, called by \<open>layoutNodesInSegment\<close> on one segment's
  nodes): the method \<open>bar\<close> of \<open>Foo\<close> is declared under \<open>tests/\<close>, so it is in
  another segment than \<open>Foo\<close>, and the group of \<open>Foo\<close> has no method, while the
  reference mapping from the \<open>includes\<close> edge gives \<open>[bar]\<close>.
\<close>

theorem C3_counterexample:
  "segment_bucket (categorizeNodesBySegment [class_foo_node, method_bar_node])
     (ColMiddle, RowMiddle) = Some [class_foo_node] \<and>
   fst (groupClassesWithMethods byteCompare [class_foo_node])
     = [\<lparr>classNode = class_foo_node, methods = []\<rparr>] \<and>
   map box_node (layoutNodesInSegment byteCompare [class_foo_node] (ColMiddle, RowMiddle)
      DEFAULT_LAYOUT_CONFIG) = [class_foo_node] \<and>
   reference_class_methods byteCompare [class_foo_node, method_bar_node] [foo_includes_bar]
     (node_id class_foo_node) = Some [method_bar_node] \<and>
   Some (methods (hd (fst (groupClassesWithMethods byteCompare [class_foo_node]))))
     \<noteq> reference_class_methods byteCompare [class_foo_node, method_bar_node]
         [foo_includes_bar] (node_id class_foo_node)"
proof -
  have a: "segment_bucket (categorizeNodesBySegment [class_foo_node, method_bar_node])
     (ColMiddle, RowMiddle) = Some [class_foo_node]"
    using example_rows by (simp add: categorize_buckets segment_bucket_def node_in_segment_def)
  have b: "fst (groupClassesWithMethods byteCompare [class_foo_node])
     = [\<lparr>classNode = class_foo_node, methods = []\<rparr>]"
    by code_simp
  have c: "map box_node (layoutNodesInSegment byteCompare [class_foo_node] (ColMiddle, RowMiddle)
      DEFAULT_LAYOUT_CONFIG) = [class_foo_node]"
    by (simp add: layoutNodesInSegment_def layout_middle_nodes b)
       code_simp
  have d: "reference_class_methods byteCompare [class_foo_node, method_bar_node] [foo_includes_bar]
     (node_id class_foo_node) = Some [method_bar_node]"
    by code_simp
  show ?thesis using a b c d by simp
qed

text \<open>
  C3, amended: the association over the full node and edge set by \<open>includes\<close> edges is
  the diagram panel's \<open>classStructMethodsMap\<close>, which equals the reference mapping
  (targets resolved against the entire catalogue). The layout engine's
  \<open>groupClassesWithMethods\<close> sees one node list and no edge: its groups are the
  class_struct nodes of that list, each with the method nodes of that list whose id
  without its last pipe-separated part is the class id, when that id is not the empty
  string; a class whose id is the empty string gets no method, since the code skips a
  method whose parent id is empty.
\<close>

theorem C3_two_associations:
  "classStructMethodsMap lc allNodes erdEdges = reference_class_methods lc allNodes erdEdges \<and>
   (\<forall>g \<in> set (fst (groupClassesWithMethods lc nodes)).
      classNode g \<in> set nodes \<and> isClassStruct (classNode g) \<and>
      mset (methods g) =
        mset (filter (\<lambda>x. isMethod x \<and> getParentClassId x = Some (node_id (classNode g))
                           \<and> node_id (classNode g) \<noteq> []) nodes)) \<and>
   mset (map classNode (fst (groupClassesWithMethods lc nodes)))
     = mset (filter isClassStruct nodes)"
proof -
  have "mset (map classNode (fst (groupClassesWithMethods lc nodes)))
          = mset (filter isClassStruct nodes)"
  proof -
    let ?gs = "make_groups lc (foldl methodsByClass_step Map.empty (filter isMethod nodes))
                 (filter isClassStruct nodes)"
    have "mset (map classNode (fst (groupClassesWithMethods lc nodes)))
            = image_mset classNode (mset ?gs)"
      by (simp add: groupClassesWithMethods_def Let_def mset_sort_cmp)
    also have "\<dots> = mset (map classNode ?gs)" by simp
    finally show ?thesis by (simp only: map_classNode_make_groups)
  qed
  then show ?thesis
    using classStructMethodsMap_is_reference groups_members by blast
qed

theorem C3_witness:
  "classStructMethodsMap byteCompare [class_foo_node, method_bar_node] [foo_includes_bar]
     (node_id class_foo_node) = Some [method_bar_node] \<and>
   class_foo_node \<in> set (filter isClassStruct [class_foo_node, method_bar_node]) \<and>
   map methods (fst (groupClassesWithMethods byteCompare [class_foo_node, method_bar_node]))
     = [[method_bar_node]] \<and>
   getParentClassId pipe_method_node = Some (node_id empty_id_class_node) \<and>
   map methods (fst (groupClassesWithMethods byteCompare
                       [empty_id_class_node, pipe_method_node])) = [[]]"
proof -
  have d: "reference_class_methods byteCompare [class_foo_node, method_bar_node] [foo_includes_bar]
     (node_id class_foo_node) = Some [method_bar_node]"
    by code_simp
  have e: "class_foo_node \<in> set (filter isClassStruct [class_foo_node, method_bar_node])"
    by code_simp
  have f: "map methods (fst (groupClassesWithMethods byteCompare
                               [class_foo_node, method_bar_node])) = [[method_bar_node]]"
    "getParentClassId pipe_method_node = Some (node_id empty_id_class_node)"
    "map methods (fst (groupClassesWithMethods byteCompare
                       [empty_id_class_node, pipe_method_node])) = [[]]"
    by code_simp+
  from C3_two_associations [of byteCompare "[class_foo_node, method_bar_node]" "[foo_includes_bar]"]
  have "classStructMethodsMap byteCompare [class_foo_node, method_bar_node] [foo_includes_bar]
     = reference_class_methods byteCompare [class_foo_node, method_bar_node] [foo_includes_bar]"
    by (rule conjunct1)
  then show ?thesis using d e f by simp
qed

section \<open>The reported container height\<close>

lemma place_at_fields [simp]:
  "width (place_at it px py) = width it" "height (place_at it px py) = height it"
  "pos_x (place_at it px py) = px" "pos_y (place_at it px py) = py"
  "item_id (place_at it px py) = item_id it" "data (place_at it px py) = data it"
  by (simp_all add: place_at_def)

lemma unplaced_place_at [simp]: "unplaced (place_at it px py) = it"
  by (simp add: unplaced_def)

lemma max_list_ge_start: "z \<le> max_list xs (z::int)"
  unfolding max_list_def
proof (induction xs arbitrary: z)
  case Nil
  show ?case by simp
next
  case (Cons x xs)
  have "z \<le> max z x" by simp
  also have "\<dots> \<le> foldl max (max z x) xs" by (rule Cons.IH)
  finally show ?case by simp
qed

lemma max_list_ge_member: "a \<in> set xs \<Longrightarrow> a \<le> max_list xs z"
  unfolding max_list_def
proof (induction xs arbitrary: z)
  case Nil
  then show ?case by simp
next
  case (Cons x xs)
  show ?case
  proof (cases "a = x")
    case True
    have "max z x \<le> foldl max (max z x) xs"
      using max_list_ge_start [of "max z x" xs] by (simp add: max_list_def)
    then show ?thesis using True by simp
  next
    case False
    with Cons.prems have "a \<in> set xs" by simp
    from Cons.IH [OF this] show ?thesis by simp
  qed
qed

text \<open>What the inner loop of the shelf packer returns.\<close>

lemma place_on_shelves_Some:
  "place_on_shelves ss it iw ih cw = Some (q, ss') \<Longrightarrow>
   \<exists>pre s post. ss = pre @ s # post \<and>
     ss' = pre @ s\<lparr>shelf_width := shelf_width s + iw, shelf_items := shelf_items s @ [q]\<rparr> # post \<and>
     q = place_at it (shelf_width s) (shelf_y s) \<and>
     shelf_width s + iw \<le> cw \<and> ih \<le> shelf_height s"
proof (induction ss arbitrary: ss')
  case Nil
  then show ?case by simp
next
  case (Cons s ss)
  show ?case
  proof (cases "shelf_width s + iw \<le> cw \<and> ih \<le> shelf_height s")
    case True
    with Cons.prems have "q = place_at it (shelf_width s) (shelf_y s)"
      "ss' = s\<lparr>shelf_width := shelf_width s + iw, shelf_items := shelf_items s @ [q]\<rparr> # ss"
      by (auto simp: Let_def)
    with True show ?thesis by (intro exI [of _ "[]"] exI [of _ s] exI [of _ ss]) simp
  next
    case False
    with Cons.prems obtain ss1 where
      r: "place_on_shelves ss it iw ih cw = Some (q, ss1)" and s': "ss' = s # ss1"
      by (auto split: option.splits)
    from Cons.IH [OF r] obtain pre t post where
      "ss = pre @ t # post"
      "ss1 = pre @ t\<lparr>shelf_width := shelf_width t + iw, shelf_items := shelf_items t @ [q]\<rparr> # post"
      "q = place_at it (shelf_width t) (shelf_y t)"
      "shelf_width t + iw \<le> cw" "ih \<le> shelf_height t"
      by blast
    then show ?thesis
      using s' by (intro exI [of _ "s # pre"] exI [of _ t] exI [of _ post]) simp
  qed
qed

lemma shelf_step_height_inv:
  assumes "shelf_height_inv st" "0 \<le> p" "0 \<le> height it + p"
  shows "shelf_height_inv (shelf_step p cw st it)"
proof -
  obtain ss packed cy where st: "st = (ss, packed, cy)" by (cases st)
  show ?thesis
  proof (cases "place_on_shelves ss it (width it + p) (height it + p) cw")
    case None
    then show ?thesis
      using assms by (auto simp: st shelf_step_def shelf_height_inv_def Let_def)
  next
    case (Some r)
    obtain q ss' where r: "r = (q, ss')" by (cases r)
    from place_on_shelves_Some [OF Some [unfolded r]] obtain pre s post where
      e: "ss = pre @ s # post"
      "ss' = pre @ s\<lparr>shelf_width := shelf_width s + (width it + p),
                      shelf_items := shelf_items s @ [q]\<rparr> # post"
      "q = place_at it (shelf_width s) (shelf_y s)"
      "height it + p \<le> shelf_height s"
      by blast
    have "shelf_step p cw st it = (ss', packed @ [q], cy)"
      by (simp add: st shelf_step_def Let_def Some r)
    then show ?thesis
      using assms e by (auto simp: st shelf_height_inv_def)
  qed
qed

lemma foldl_shelf_height_inv:
  assumes "shelf_height_inv st" "0 \<le> p" "\<forall>it \<in> set its. 0 \<le> height it + p"
  shows "shelf_height_inv (foldl (shelf_step p cw) st its)"
  using assms
proof (induction its arbitrary: st)
  case Nil
  then show ?case by simp
next
  case (Cons it its)
  then show ?case by (simp add: shelf_step_height_inv)
qed

lemma packItems_height:
  assumes "0 \<le> or_default (sh_padding so) 3"
    and "\<forall>it \<in> set its. 0 \<le> height it + or_default (sh_padding so) 3"
    and "q \<in> set (items (packItems its cw so))"
  shows "pos_y q + height q \<le> containerHeight (packItems its cw so)"
proof -
  let ?p = "or_default (sh_padding so) 3"
  let ?sorted = "if sh_sortByHeight so \<noteq> Some False
                 then sort_cmp (\<lambda>a b. height b - height a) its else its"
  obtain ss packed cy where f: "foldl (shelf_step ?p cw) ([], [], ?p) ?sorted = (ss, packed, cy)"
    by (cases "foldl (shelf_step ?p cw) ([], [], ?p) ?sorted")
  have r: "packItems its cw so = \<lparr>items = packed, containerWidth = cw, containerHeight = cy\<rparr>"
    using f by (simp add: packItems_def Let_def)
  have "\<forall>it \<in> set ?sorted. 0 \<le> height it + ?p"
    using assms(2) by (simp add: set_sort_cmp)
  from foldl_shelf_height_inv [OF _ assms(1) this, of "([], [], ?p)" cw]
  have "shelf_height_inv (ss, packed, cy)"
    by (simp add: f shelf_height_inv_def)
  then show ?thesis using assms(3) by (simp add: r shelf_height_inv_def)
qed

lemma packItemsGuillotine_height:
  assumes "0 \<le> or_default (gu_padding go) 3"
    and "q \<in> set (items (packItemsGuillotine its cw go))"
  shows "pos_y q + height q \<le> containerHeight (packItemsGuillotine its cw go)"
proof -
  let ?p = "or_default (gu_padding go) 3"
  let ?init = "[\<lparr>rect_x = ?p, rect_y = ?p, rect_width = cw - ?p * 2, rect_height = Infinity\<rparr>]"
  let ?sorted = "sort_cmp (\<lambda>a b. width b * height b - width a * height a) its"
  obtain frs packed where
    f: "foldl (guillotine_step ?p) (?init, []) ?sorted = (frs, packed)"
    by (cases "foldl (guillotine_step ?p) (?init, []) ?sorted")
  have r: "packItemsGuillotine its cw go =
             \<lparr>items = packed, containerWidth = cw,
              containerHeight = max_list (map (\<lambda>p. pos_y p + height p) packed) 0 + ?p\<rparr>"
    using f by (simp add: packItemsGuillotine_def Let_def)
  from assms(2) have "q \<in> set packed" by (simp add: r)
  then have "pos_y q + height q \<le> max_list (map (\<lambda>p. pos_y p + height p) packed) 0"
    by (intro max_list_ge_member) auto
  then show ?thesis using assms(1) by (simp add: r)
qed


lemma column_step_height_inv:
  assumes "column_height_inv n st" "0 < n" "0 \<le> p" "0 \<le> height it + p"
  shows "column_height_inv n (column_step p n cwid st (i, it))"
proof -
  obtain cols hs where st: "st = (cols, hs)" by (cases st)
  have c: "i mod n < n" using assms(2) by simp
  from assms(1) have l: "length cols = n" "length hs = n"
    and b: "\<forall>c < n. \<forall>q \<in> set (cols ! c). pos_y q + height q \<le> hs ! c"
    by (simp_all add: st column_height_inv_def)
  show ?thesis
    unfolding st column_step_def column_height_inv_def Let_def
  proof (simp add: l, intro allI impI ballI)
    fix c q
    assume cn: "c < n"
      and q: "q \<in> set (cols[i mod n := cols ! (i mod n) @
                 [place_at it (int (i mod n) * cwid + p) (hs ! (i mod n))]] ! c)"
    show "pos_y q + height q \<le> hs[i mod n := hs ! (i mod n) + height it + p] ! c"
    proof (cases "c = i mod n")
      case True
      with q l c have "q \<in> set (cols ! c) \<or> q = place_at it (int c * cwid + p) (hs ! c)"
        by auto
      moreover from b cn have "\<forall>q \<in> set (cols ! c). pos_y q + height q \<le> hs ! c" by simp
      moreover have "hs[i mod n := hs ! (i mod n) + height it + p] ! c = hs ! c + height it + p"
        using True l cn by simp
      ultimately show ?thesis
        using assms(3,4) by auto
    next
      case False
      with q have "q \<in> set (cols ! c)" by simp
      then show ?thesis using b cn False by (simp add: nth_list_update)
    qed
  qed
qed

lemma foldl_column_height_inv:
  assumes "column_height_inv n st" "0 < n" "0 \<le> p" "\<forall>x \<in> set xs. 0 \<le> height (snd x) + p"
  shows "column_height_inv n (foldl (column_step p n cwid) st xs)"
  using assms
proof (induction xs arbitrary: st)
  case Nil
  then show ?case by simp
next
  case (Cons x xs)
  obtain i it where x: "x = (i, it)" by (cases x)
  from Cons.prems have "column_height_inv n (column_step p n cwid st (i, it))"
    by (intro column_step_height_inv) (simp_all add: x)
  with Cons show ?case by (simp add: x)
qed

lemma numColumns_positive:
  "0 < numColumns cw co \<longleftrightarrow> 0 < or_default (co_maxColumns co) 4"
  by (auto simp: numColumns_def Let_def)

lemma packIntoColumns_returns:
  "0 < or_default (co_maxColumns co) 4 \<Longrightarrow> \<exists>r. packIntoColumns its cw co = Inr r"
  using numColumns_positive [of cw co]
  by (auto simp: packIntoColumns_def Let_def split: prod.splits)

lemma packIntoColumns_height:
  assumes "0 \<le> or_default (co_padding co) 3"
    and "\<forall>it \<in> set its. 0 \<le> height it + or_default (co_padding co) 3"
    and "packIntoColumns its cw co = Inr r" "q \<in> set (items r)"
  shows "pos_y q + height q \<le> containerHeight r"
proof -
  let ?p = "or_default (co_padding co) 3"
  let ?n = "nat (numColumns cw co)"
  let ?xs = "zip [0 ..< length its] its"
  from assms(3) have pos: "0 < numColumns cw co"
    by (auto simp: packIntoColumns_def Let_def split: if_splits)
  obtain cols hs where
    f: "foldl (column_step ?p ?n (pack_columnWidth cw co)) (replicate ?n [], replicate ?n ?p) ?xs
          = (cols, hs)"
    by (cases "foldl (column_step ?p ?n (pack_columnWidth cw co))
                 (replicate ?n [], replicate ?n ?p) ?xs")
  have r: "r = \<lparr>items = concat cols, containerWidth = cw, containerHeight = max_list hs ?p\<rparr>"
    using assms(3) pos f by (simp add: packIntoColumns_def Let_def)
  have h: "\<forall>x \<in> set ?xs. 0 \<le> height (snd x) + ?p"
    using assms(2) by (auto dest: set_zip_rightD)
  have i0: "column_height_inv ?n (replicate ?n [], replicate ?n ?p)"
    by (simp add: column_height_inv_def)
  have n0: "0 < ?n" using pos by simp
  from foldl_column_height_inv [OF i0 n0 assms(1) h, of "pack_columnWidth cw co"]
  have inv: "column_height_inv ?n (cols, hs)" by (simp add: f)
  from assms(4) obtain col where "col \<in> set cols" "q \<in> set col" by (auto simp: r)
  then obtain c where c: "c < length cols" "q \<in> set (cols ! c)"
    by (auto simp: in_set_conv_nth)
  with inv have "pos_y q + height q \<le> hs ! c" "c < length hs"
    by (simp_all add: column_height_inv_def)
  moreover from this have "hs ! c \<le> max_list hs ?p"
    by (intro max_list_ge_member) simp
  ultimately show ?thesis by (simp add: r)
qed

text \<open>
  C8, as stated, fails: \<open>options.padding || 3\<close> keeps a negative padding, and then each
  packer reports a container height below the end of a placed item: the shelf packer
  with padding -2 reports 34 for an item that ends at 36, the guillotine and the column
  packer with padding -5 report 0 for an item that ends at 5. It also fails, at the default
  padding, for an item whose height is negative: the shelf packer then reports -1 and the
  column packer 3, below the first item's end at 13.
\<close>

theorem C8_counterexample:
  "containerHeight (packItems tall_item 100 (shelf_options_padding (-2))) = 34 \<and>
   pos_y (items (packItems tall_item 100 (shelf_options_padding (-2))) ! 0)
     + height (items (packItems tall_item 100 (shelf_options_padding (-2))) ! 0) = 36 \<and>
   containerHeight (packItemsGuillotine square_item 100 (guillotine_options_padding (-5))) = 0 \<and>
   pos_y (items (packItemsGuillotine square_item 100 (guillotine_options_padding (-5))) ! 0)
     + height (items (packItemsGuillotine square_item 100 (guillotine_options_padding (-5))) ! 0)
     = 5 \<and>
   length (result_items (packIntoColumns square_item 100 (column_options_padding (-5)))) = 1 \<and>
   result_height (packIntoColumns square_item 100 (column_options_padding (-5))) = 0 \<and>
   pos_y (result_items (packIntoColumns square_item 100 (column_options_padding (-5))) ! 0)
     + height (result_items (packIntoColumns square_item 100 (column_options_padding (-5))) ! 0)
     = 5 \<and>
   containerHeight (packItems sinking_items 100 default_shelf_options) = -1 \<and>
   pos_y (items (packItems sinking_items 100 default_shelf_options) ! 0)
     + height (items (packItems sinking_items 100 default_shelf_options) ! 0) = 13 \<and>
   length (result_items (packIntoColumns sinking_items 100 default_column_options)) = 2 \<and>
   result_height (packIntoColumns sinking_items 100 default_column_options) = 3 \<and>
   pos_y (result_items (packIntoColumns sinking_items 100 default_column_options) ! 0)
     + height (result_items (packIntoColumns sinking_items 100 default_column_options) ! 0)
     = 13"
  by code_simp

text \<open>
  C8, amended: the container height the guillotine packer reports is at least
  \<open>y + height\<close> of every placed item when the padding is not negative; the container
  height the shelf packer and the column packer report is so when the padding is not
  negative and no item's height plus the padding is negative, as for every item whose
  height is not negative. The column packer returns a result whenever \<open>maxColumns\<close> is
  positive.
\<close>

theorem C8_container_height_bounds_items:
  "(0 \<le> or_default (gu_padding go) 3 \<longrightarrow>
      (\<forall>q \<in> set (items (packItemsGuillotine its cw go)).
         pos_y q + height q \<le> containerHeight (packItemsGuillotine its cw go))) \<and>
   (0 \<le> or_default (sh_padding so) 3 \<and>
    (\<forall>it \<in> set its. 0 \<le> height it + or_default (sh_padding so) 3) \<longrightarrow>
      (\<forall>q \<in> set (items (packItems its cw so)).
         pos_y q + height q \<le> containerHeight (packItems its cw so))) \<and>
   (0 \<le> or_default (co_padding co) 3 \<and>
    (\<forall>it \<in> set its. 0 \<le> height it + or_default (co_padding co) 3) \<longrightarrow>
      (\<forall>r. packIntoColumns its cw co = Inr r \<longrightarrow>
         (\<forall>q \<in> set (items r). pos_y q + height q \<le> containerHeight r))) \<and>
   (0 < or_default (co_maxColumns co) 4 \<longrightarrow> (\<exists>r. packIntoColumns its cw co = Inr r))"
proof -
  have g: "\<forall>q \<in> set (items (packItemsGuillotine its cw go)).
         pos_y q + height q \<le> containerHeight (packItemsGuillotine its cw go)"
    if "0 \<le> or_default (gu_padding go) 3"
    using packItemsGuillotine_height [OF that] by blast
  have s: "\<forall>q \<in> set (items (packItems its cw so)).
         pos_y q + height q \<le> containerHeight (packItems its cw so)"
    if "0 \<le> or_default (sh_padding so) 3 \<and>
        (\<forall>it \<in> set its. 0 \<le> height it + or_default (sh_padding so) 3)"
    using packItems_height [of so its _ cw] that by blast
  have c: "\<forall>q \<in> set (items r). pos_y q + height q \<le> containerHeight r"
    if "0 \<le> or_default (co_padding co) 3 \<and>
        (\<forall>it \<in> set its. 0 \<le> height it + or_default (co_padding co) 3)"
      "packIntoColumns its cw co = Inr r" for r
    using packIntoColumns_height [of co its cw r] that by blast
  have e: "\<exists>r. packIntoColumns its cw co = Inr r" if "0 < or_default (co_maxColumns co) 4"
    by (rule packIntoColumns_returns [OF that])
  show ?thesis
    by (intro conjI allI impI; (rule g s c e)?; assumption?)
qed

theorem C8_witness:
  "0 \<le> or_default (sh_padding default_shelf_options) 3 \<and>
   containerHeight (packItems three_items 100 default_shelf_options) = 69 \<and>
   max_list (map (\<lambda>q. pos_y q + height q)
      (items (packItems three_items 100 default_shelf_options))) 0 = 66 \<and>
   list_all (\<lambda>q. pos_y q + height q
               \<le> containerHeight (packItems three_items 100 default_shelf_options))
     (items (packItems three_items 100 default_shelf_options)) \<and>
   0 < or_default (co_maxColumns default_column_options) 4 \<and>
   (\<exists>r. packIntoColumns three_items 100 default_column_options = Inr r)"
proof -
  have h: "0 \<le> or_default (sh_padding default_shelf_options) 3 \<and>
    (\<forall>it \<in> set three_items. 0 \<le> height it + or_default (sh_padding default_shelf_options) 3)"
    by code_simp
  have m: "0 < or_default (co_maxColumns default_column_options) 4" by code_simp
  note t = C8_container_height_bounds_items
    [of default_guillotine_options three_items 100 default_shelf_options default_column_options]
  from t [THEN conjunct2, THEN conjunct1] h
  have "\<forall>q \<in> set (items (packItems three_items 100 default_shelf_options)).
          pos_y q + height q \<le> containerHeight (packItems three_items 100 default_shelf_options)"
    by (rule mp)
  then have b: "list_all (\<lambda>q. pos_y q + height q
               \<le> containerHeight (packItems three_items 100 default_shelf_options))
     (items (packItems three_items 100 default_shelf_options))"
    by (simp add: list_all_iff)
  from t [THEN conjunct2, THEN conjunct2, THEN conjunct2] m
  have e: "\<exists>r. packIntoColumns three_items 100 default_column_options = Inr r"
    by (rule mp)
  have c: "containerHeight (packItems three_items 100 default_shelf_options) = 69"
    "max_list (map (\<lambda>q. pos_y q + height q)
      (items (packItems three_items 100 default_shelf_options))) 0 = 66"
    by code_simp+
  show ?thesis using h b c m e by simp
qed

section \<open>Which items the packers place\<close>

lemma find_best_keeps_Some: "find_best rs iw ih (Some b) fit \<noteq> None"
  by (induction rs arbitrary: b fit) (simp_all add: Let_def)

lemma find_best_None_iff:
  "find_best rs iw ih None Infinity = None \<longleftrightarrow> (\<forall>r \<in> set rs. \<not> rect_fits r iw ih)"
proof (induction rs)
  case Nil
  show ?case by simp
next
  case (Cons r rs)
  show ?case
  proof (cases "rect_fits r iw ih")
    case True
    then show ?thesis
      by (simp add: rect_fits_def Let_def find_best_keeps_Some)
  next
    case False
    then show ?thesis using Cons.IH by (auto simp: rect_fits_def)
  qed
qed

lemma find_best_result:
  "find_best rs iw ih best fit = Some b \<Longrightarrow>
   best = Some b \<or> (b \<in> set rs \<and> rect_fits b iw ih)"
proof (induction rs arbitrary: best fit)
  case Nil
  then show ?case by simp
next
  case (Cons r rs)
  show ?case
  proof (cases "rect_fits r iw ih \<and>
      ext_less (Fin (ext_min (rect_width r - iw) (ext_minus (rect_height r) ih))) fit")
    case True
    with Cons.prems have
      "find_best rs iw ih (Some r)
         (Fin (ext_min (rect_width r - iw) (ext_minus (rect_height r) ih))) = Some b"
      by (simp add: rect_fits_def Let_def)
    from Cons.IH [OF this] True show ?thesis by auto
  next
    case False
    with Cons.prems have "find_best rs iw ih best fit = Some b"
      by (auto simp: rect_fits_def Let_def split: if_splits)
    from Cons.IH [OF this] show ?thesis by auto
  qed
qed

lemma find_best_fits:
  "find_best rs iw ih None Infinity = Some b \<Longrightarrow> b \<in> set rs \<and> rect_fits b iw ih"
  using find_best_result [of rs iw ih None Infinity b] by simp

lemma set_splice1: "set (splice1 i xs) \<subseteq> set xs"
  unfolding splice1_def using set_take_subset [of i xs] set_drop_subset [of "Suc i" xs]
  by auto

lemma set_prune_from: "set (prune_from n rs) \<subseteq> set rs"
proof (induction n arbitrary: rs)
  case 0
  show ?case by simp
next
  case (Suc n)
  have "set (prune_from n (if overlaps_before rs n n then splice1 n rs else rs))
          \<subseteq> set (if overlaps_before rs n n then splice1 n rs else rs)"
    by (rule Suc.IH)
  also have "\<dots> \<subseteq> set rs" using set_splice1 [of n rs] by simp
  finally show ?case by simp
qed

lemma set_prune_overlapping: "set (prune_overlapping rs) \<subseteq> set rs"
  by (simp add: prune_overlapping_def set_prune_from)

text \<open>The two outcomes of one step of the guillotine packer.\<close>

lemma guillotine_step_cases:
  obtains (skip) "\<forall>r \<in> set frs. \<not> rect_fits r (width it + p) (height it + p)"
      "guillotine_step p (frs, packed) it = (frs, packed)"
  | (place) b where "b \<in> set frs" "rect_fits b (width it + p) (height it + p)"
      "guillotine_step p (frs, packed) it =
         (prune_overlapping (remove1 b frs @ split_rect b (width it + p) (height it + p)),
          packed @ [place_at it (rect_x b) (rect_y b)])"
proof (cases "find_best frs (width it + p) (height it + p) None Infinity")
  case None
  then have "\<forall>r \<in> set frs. \<not> rect_fits r (width it + p) (height it + p)"
    by (simp add: find_best_None_iff)
  moreover have "guillotine_step p (frs, packed) it = (frs, packed)"
    using None by (simp add: guillotine_step_def Let_def)
  ultimately show ?thesis by (rule skip)
next
  case (Some b)
  from find_best_fits [OF Some]
  have "b \<in> set frs" "rect_fits b (width it + p) (height it + p)" by simp_all
  moreover have "guillotine_step p (frs, packed) it =
         (prune_overlapping (remove1 b frs @ split_rect b (width it + p) (height it + p)),
          packed @ [place_at it (rect_x b) (rect_y b)])"
    using Some by (simp add: guillotine_step_def Let_def)
  ultimately show ?thesis by (rule place)
qed

lemma split_rect_members:
  "r \<in> set (split_rect b iw ih) \<Longrightarrow>
   (r = \<lparr>rect_x = rect_x b + iw, rect_y = rect_y b, rect_width = rect_width b - iw,
         rect_height = Fin ih\<rparr> \<and> iw < rect_width b) \<or>
   (r = \<lparr>rect_x = rect_x b, rect_y = rect_y b + ih, rect_width = rect_width b,
         rect_height = ext_minus (rect_height b) ih\<rparr> \<and> ext_less (Fin ih) (rect_height b))"
  by (auto simp: split_rect_def split: if_splits)

lemma guillotine_step_width_inv:
  assumes "guillotine_width_inv p cw (frs, packed)" "0 \<le> width it + p"
  shows "guillotine_width_inv p cw (guillotine_step p (frs, packed) it)"
proof (cases rule: guillotine_step_cases [of frs it p packed])
  case skip
  then show ?thesis using assms(1) by simp
next
  case (place b)
  from assms(1) place(1) have b: "p \<le> rect_x b" "rect_x b + rect_width b \<le> cw - p"
    by (auto simp: guillotine_width_inv_def)
  from place(2) have w: "width it + p \<le> rect_width b" by (simp add: rect_fits_def)
  have "p \<le> rect_x r \<and> rect_x r + rect_width r \<le> cw - p"
    if "r \<in> set (prune_overlapping
                    (remove1 b frs @ split_rect b (width it + p) (height it + p)))" for r
  proof -
    from that set_prune_overlapping
    have "r \<in> set (remove1 b frs) \<or> r \<in> set (split_rect b (width it + p) (height it + p))"
      by fastforce
    then show ?thesis
    proof
      assume "r \<in> set (remove1 b frs)"
      then have "r \<in> set frs" using set_remove1_subset [of b frs] by auto
      with assms(1) show ?thesis by (auto simp: guillotine_width_inv_def)
    next
      assume "r \<in> set (split_rect b (width it + p) (height it + p))"
      from split_rect_members [OF this] b assms(2) show ?thesis by auto
    qed
  qed
  then show ?thesis
    using assms(1) b w by (auto simp: place(3) guillotine_width_inv_def)
qed


lemma foldl_guillotine_width_inv:
  assumes "guillotine_width_inv p cw st" "\<forall>it \<in> set its. 0 \<le> width it + p"
  shows "guillotine_width_inv p cw (foldl (guillotine_step p) st its)"
  using assms
proof (induction its arbitrary: st)
  case Nil
  then show ?case by simp
next
  case (Cons it its)
  obtain frs packed where st: "st = (frs, packed)" by (cases st)
  from Cons.prems have "guillotine_width_inv p cw (guillotine_step p (frs, packed) it)"
    by (intro guillotine_step_width_inv) (simp_all add: st)
  with Cons show ?case by (simp add: st)
qed

lemma guillotine_step_mset:
  "mset (map unplaced (snd (guillotine_step p (frs, packed) it)))
     \<subseteq># add_mset it (mset (map unplaced packed))"
  by (cases rule: guillotine_step_cases [of frs it p packed]) simp_all

lemma foldl_guillotine_mset:
  "mset (map unplaced (snd (foldl (guillotine_step p) st its)))
     \<subseteq># mset (map unplaced (snd st)) + mset its"
proof (induction its arbitrary: st)
  case Nil
  show ?case by simp
next
  case (Cons it its)
  obtain frs packed where st: "st = (frs, packed)" by (cases st)
  have "mset (map unplaced (snd (foldl (guillotine_step p) (guillotine_step p st it) its)))
          \<subseteq># mset (map unplaced (snd (guillotine_step p st it))) + mset its"
    by (rule Cons.IH)
  also have "\<dots> \<subseteq># add_mset it (mset (map unplaced (snd st))) + mset its"
    using guillotine_step_mset [of p frs packed it] by (simp add: st)
  finally show ?case by simp
qed

lemma shelf_step_mset:
  "mset (map unplaced (fst (snd (shelf_step p cw (ss, packed, cy) it))))
     = add_mset it (mset (map unplaced packed))"
proof (cases "place_on_shelves ss it (width it + p) (height it + p) cw")
  case None
  then show ?thesis by (simp add: shelf_step_def Let_def)
next
  case (Some r)
  obtain q ss' where r: "r = (q, ss')" by (cases r)
  from place_on_shelves_Some [OF Some [unfolded r]]
  obtain px py where "q = place_at it px py"
    by (elim exE conjE) (rule that, assumption)
  then show ?thesis by (simp add: shelf_step_def Let_def Some r)
qed

lemma foldl_shelf_mset:
  "mset (map unplaced (fst (snd (foldl (shelf_step p cw) st its))))
     = mset (map unplaced (fst (snd st))) + mset its"
proof (induction its arbitrary: st)
  case Nil
  show ?case by simp
next
  case (Cons it its)
  obtain ss packed cy where st: "st = (ss, packed, cy)" by (cases st)
  have "mset (map unplaced (fst (snd (foldl (shelf_step p cw) (shelf_step p cw st it) its))))
          = mset (map unplaced (fst (snd (shelf_step p cw st it)))) + mset its"
    by (rule Cons.IH)
  then show ?case
    using shelf_step_mset [of p cw ss packed cy it] by (simp add: st)
qed

lemma packItems_mset: "mset (map unplaced (items (packItems its cw so))) = mset its"
proof -
  let ?p = "or_default (sh_padding so) 3"
  let ?sorted = "if sh_sortByHeight so \<noteq> Some False
                 then sort_cmp (\<lambda>a b. height b - height a) its else its"
  have e: "items (packItems its cw so) = fst (snd (foldl (shelf_step ?p cw) ([], [], ?p) ?sorted))"
    by (simp add: packItems_def Let_def split: prod.splits)
  have "mset (map unplaced (fst (snd (foldl (shelf_step ?p cw) ([], [], ?p) ?sorted))))
          = mset ?sorted"
    using foldl_shelf_mset [of ?p cw "([], [], ?p)" ?sorted] by simp
  then show ?thesis unfolding e by (simp add: mset_sort_cmp)
qed

lemma packItemsGuillotine_items:
  "items (packItemsGuillotine its cw go) =
     snd (foldl (guillotine_step (or_default (gu_padding go) 3))
            ([\<lparr>rect_x = or_default (gu_padding go) 3, rect_y = or_default (gu_padding go) 3,
               rect_width = cw - or_default (gu_padding go) 3 * 2, rect_height = Infinity\<rparr>], [])
            (sort_cmp (\<lambda>a b. width b * height b - width a * height a) its))"
  by (simp add: packItemsGuillotine_def Let_def split: prod.splits)

lemma packItemsGuillotine_mset:
  "mset (map unplaced (items (packItemsGuillotine its cw go))) \<subseteq># mset its"
  using foldl_guillotine_mset
    [of "or_default (gu_padding go) 3"
        "([\<lparr>rect_x = or_default (gu_padding go) 3, rect_y = or_default (gu_padding go) 3,
            rect_width = cw - or_default (gu_padding go) 3 * 2, rect_height = Infinity\<rparr>], [])"
        "sort_cmp (\<lambda>a b. width b * height b - width a * height a) its"]
  by (simp add: packItemsGuillotine_items mset_sort_cmp)

lemma packItemsGuillotine_width:
  assumes "0 \<le> or_default (gu_padding go) 3" "\<forall>it \<in> set its. 0 < width it"
    and "q \<in> set (items (packItemsGuillotine its cw go))"
  shows "or_default (gu_padding go) 3 \<le> pos_x q \<and>
         pos_x q + width q + or_default (gu_padding go) 3 \<le> cw - or_default (gu_padding go) 3"
proof -
  let ?p = "or_default (gu_padding go) 3"
  let ?init = "([\<lparr>rect_x = ?p, rect_y = ?p, rect_width = cw - ?p * 2,
                   rect_height = Infinity\<rparr>], []) :: FreeRect list \<times> 'a PackedItem list"
  let ?sorted = "sort_cmp (\<lambda>a b. width b * height b - width a * height a) its"
  have i: "guillotine_width_inv ?p cw ?init"
    by (simp add: guillotine_width_inv_def)
  have w: "\<forall>it \<in> set ?sorted. 0 \<le> width it + ?p"
    using assms(1,2) by (auto simp: set_sort_cmp intro: add_nonneg_nonneg less_imp_le)
  from foldl_guillotine_width_inv [OF i w] assms(3)
  show ?thesis
    by (auto simp: packItemsGuillotine_items guillotine_width_inv_def split: prod.splits)
qed


text \<open>
  C9: a step of the guillotine packer places the item exactly when some free rectangle fits
  its padded dimensions, and otherwise leaves the state as it is. For a padding that is not
  negative and items of positive width, every placed item is at most
  \<open>containerWidth - 2 * padding\<close> wide, so an input with a wider item yields a
  strictly shorter output; the output's items are among the input's. The shelf packer
  returns every input item exactly once.
\<close>

theorem C9_guillotine_omits_shelf_keeps:
  assumes "0 \<le> or_default (gu_padding go) 3" and "\<forall>it \<in> set its. 0 < width it"
  shows
    "(\<forall>p frs packed it.
        ((\<forall>r \<in> set frs. \<not> rect_fits r (width it + p) (height it + p)) \<and>
         guillotine_step p (frs, packed) it = (frs, packed)) \<or>
        (\<exists>b \<in> set frs. rect_fits b (width it + p) (height it + p) \<and>
           snd (guillotine_step p (frs, packed) it)
             = packed @ [place_at it (rect_x b) (rect_y b)])) \<and>
     (\<forall>q \<in> set (items (packItemsGuillotine its cw go)).
        width q \<le> cw - 2 * or_default (gu_padding go) 3) \<and>
     mset (map unplaced (items (packItemsGuillotine its cw go))) \<subseteq># mset its \<and>
     ((\<exists>it \<in> set its. cw - 2 * or_default (gu_padding go) 3 < width it) \<longrightarrow>
        length (items (packItemsGuillotine its cw go)) < length its) \<and>
     mset (map unplaced (items (packItems its cw so))) = mset its \<and>
     length (items (packItems its cw so)) = length its"
proof -
  let ?p = "or_default (gu_padding go) 3"
  let ?out = "items (packItemsGuillotine its cw go)"
  have step: "((\<forall>r \<in> set frs. \<not> rect_fits r (width it + p) (height it + p)) \<and>
         guillotine_step p (frs, packed) it = (frs, packed)) \<or>
        (\<exists>b \<in> set frs. rect_fits b (width it + p) (height it + p) \<and>
           snd (guillotine_step p (frs, packed) it)
             = packed @ [place_at it (rect_x b) (rect_y b)])"
    for p frs packed it
    by (cases rule: guillotine_step_cases [of frs it p packed]) auto
  have wd: "\<forall>q \<in> set ?out. width q \<le> cw - 2 * ?p"
  proof
    fix q assume "q \<in> set ?out"
    from packItemsGuillotine_width [OF assms this] assms(1)
    show "width q \<le> cw - 2 * ?p" by linarith
  qed
  have sub: "mset (map unplaced ?out) \<subseteq># mset its"
    by (rule packItemsGuillotine_mset)
  have short: "length ?out < length its" if "\<exists>it \<in> set its. cw - 2 * ?p < width it"
  proof -
    from that obtain it where it: "it \<in> set its" "cw - 2 * ?p < width it" by blast
    have "it \<notin> set (map unplaced ?out)"
    proof
      assume "it \<in> set (map unplaced ?out)"
      then obtain q where "q \<in> set ?out" "it = unplaced q" by auto
      with wd have "width it \<le> cw - 2 * ?p" by (simp add: unplaced_def)
      with it(2) show False by simp
    qed
    with it(1) have "mset (map unplaced ?out) \<noteq> mset its"
      by (metis set_mset_mset)
    with sub have "mset (map unplaced ?out) \<subset># mset its"
      by (simp add: subset_mset.less_le)
    from mset_subset_size [OF this] show ?thesis by simp
  qed
  have keep: "mset (map unplaced (items (packItems its cw so))) = mset its"
    by (rule packItems_mset)
  have "size (mset (map unplaced (items (packItems its cw so)))) = size (mset its)"
    by (simp only: keep)
  then have len: "length (items (packItems its cw so)) = length its" by simp
  show ?thesis
    by (intro conjI allI impI; (rule step wd sub keep len short)?; assumption?)
qed

theorem C9_witness:
  "map item_id (items (packItemsGuillotine oversize_items 60 default_guillotine_options))
     = [''small''] \<and>
   length (items (packItemsGuillotine oversize_items 60 default_guillotine_options))
     < length oversize_items \<and>
   map item_id (items (packItems oversize_items 60 default_shelf_options))
     = [''wide'', ''small'']"
proof -
  have h: "0 \<le> or_default (gu_padding default_guillotine_options) 3"
    "\<forall>it \<in> set oversize_items. 0 < width it"
    by code_simp+
  have e: "\<exists>it \<in> set oversize_items.
             60 - 2 * or_default (gu_padding default_guillotine_options) 3 < width it"
    by code_simp
  from C9_guillotine_omits_shelf_keeps [OF h, of 60 default_shelf_options,
      THEN conjunct2, THEN conjunct2, THEN conjunct2, THEN conjunct1]
  have "(\<exists>it \<in> set oversize_items.
             60 - 2 * or_default (gu_padding default_guillotine_options) 3 < width it) \<longrightarrow>
        length (items (packItemsGuillotine oversize_items 60 default_guillotine_options))
          < length oversize_items" .
  with e have l: "length (items (packItemsGuillotine oversize_items 60
                    default_guillotine_options)) < length oversize_items"
    by (rule rev_mp)
  have a: "map item_id (items (packItemsGuillotine oversize_items 60
             default_guillotine_options)) = [''small'']"
    by code_simp
  have b: "map item_id (items (packItems oversize_items 60 default_shelf_options))
     = [''wide'', ''small'']"
    by code_simp
  show ?thesis using a l b by simp
qed


section \<open>No overlap and the container's width\<close>













































end
